(* ===== verification/Rt_Prelude.thy ===== *)
theory Rt_Prelude
  imports Main "HOL-Library.Word" "HOL-Library.Char_ord" "HOL-Library.List_Lexorder"
begin

text \<open>
  What every component of the TypeScript runtime shares: JavaScript errors, actions that
  keep their effects when they throw, the loops of the source, the insertion-ordered
  \<^verbatim>\<open>Map\<close>, and the string operations of the language that the source calls.

  A JavaScript string is represented by the bytes of its UTF-8 form (one \<^typ>\<open>char\<close> per byte).
  All separators, suffixes and character classes the runtime tests for are ASCII, where this
  representation and UTF-16 code units agree.
\<close>

named_theorems act_simps \<open>unfolding the action combinators at a state\<close>
named_theorems path_simps \<open>path strings and their keys\<close>

type_synonym bytes = "8 word list"

section \<open>Errors\<close>

text \<open>
  A thrown value is an \<^verbatim>\<open>Error\<close> object with a name and a message, or any other value, of
  which the source only ever reads \<^verbatim>\<open>String(err)\<close>.
\<close>

datatype js_error = JsError (err_name: string) (err_message: string) | JsThrown string

fun err_string :: "js_error \<Rightarrow> string" where
  "err_string (JsError n m) =
     (if m = [] then n else if n = [] then m else n @ '': '' @ m)"
| "err_string (JsThrown s) = s"

section \<open>Actions: state, with effects that survive a throw\<close>

type_synonym ('s, 'a) act = "'s \<Rightarrow> (js_error + 'a) \<times> 's"

definition ret :: "'a \<Rightarrow> ('s, 'a) act" where
  "ret a s = (Inr a, s)"

definition throw :: "js_error \<Rightarrow> ('s, 'a) act" where
  "throw e s = (Inl e, s)"

definition andThen :: "('s, 'a) act \<Rightarrow> ('a \<Rightarrow> ('s, 'b) act) \<Rightarrow> ('s, 'b) act" where
  "andThen m f s = (case m s of (Inl e, t) \<Rightarrow> (Inl e, t) | (Inr a, t) \<Rightarrow> f a t)"

definition tryCatch :: "('s, 'a) act \<Rightarrow> (js_error \<Rightarrow> ('s, 'a) act) \<Rightarrow> ('s, 'a) act" where
  "tryCatch m h s = (case m s of (Inl e, t) \<Rightarrow> h e t | (Inr a, t) \<Rightarrow> (Inr a, t))"

definition gets :: "('s \<Rightarrow> 'a) \<Rightarrow> ('s, 'a) act" where
  "gets f s = (Inr (f s), s)"

definition modify :: "('s \<Rightarrow> 's) \<Rightarrow> ('s, unit) act" where
  "modify f s = (Inr (), f s)"

text \<open>Reading from the state, where the reading itself may throw.\<close>

definition reads :: "('s \<Rightarrow> js_error + 'a) \<Rightarrow> ('s, 'a) act" where
  "reads f s = (f s, s)"

definition fromResult :: "js_error + 'a \<Rightarrow> ('s, 'a) act" where
  "fromResult r s = (r, s)"

text \<open>A \<^verbatim>\<open>for .. of\<close> loop over a list, carrying the loop's local variables.\<close>

fun forEach :: "'x list \<Rightarrow> 'b \<Rightarrow> ('x \<Rightarrow> 'b \<Rightarrow> ('s, 'b) act) \<Rightarrow> ('s, 'b) act" where
  "forEach [] b f = ret b"
| "forEach (x # xs) b f = andThen (f x b) (\<lambda>b'. forEach xs b' f)"

lemmas act_defs [act_simps] = ret_def throw_def gets_def modify_def fromResult_def reads_def

lemma andThen_Inr [act_simps]: "m s = (Inr a, t) \<Longrightarrow> andThen m f s = f a t"
  by (simp add: andThen_def)

lemma andThen_Inl [act_simps]: "m s = (Inl e, t) \<Longrightarrow> andThen m f s = (Inl e, t)"
  by (simp add: andThen_def)

lemma andThen_simps [simp]:
  "andThen (ret a) f = f a"
  "andThen (throw e) f = throw e"
  "andThen (gets g) f s = f (g s) s"
  "andThen (modify h) k s = k () (h s)"
  "andThen (fromResult (Inr a)) f = f a"
  "andThen (fromResult (Inl e)) f = throw e"
  by (auto simp: andThen_def act_simps fun_eq_iff)

lemma andThen_okE:
  assumes "andThen m f s = (Inr b, u)"
  obtains a t where "m s = (Inr a, t)" and "f a t = (Inr b, u)"
  using assms by (auto simp: andThen_def split: prod.splits sum.splits)

text \<open>If what comes after cannot throw, the error is that of the first action.\<close>

lemma andThen_InlD:
  assumes "andThen m f s = (Inl e, t)" and "\<And>a u. \<exists>b w. f a u = (Inr b, w)"
  shows "m s = (Inl e, t)"
proof (cases "m s")
  case (Pair r u)
  then show ?thesis
    using assms(1) assms(2) [of "projr r" u] by (cases r) (auto simp: andThen_def)
qed

lemma andThen_assoc: "andThen (andThen m f) g = andThen m (\<lambda>a. andThen (f a) g)"
  by (auto simp: andThen_def fun_eq_iff split: prod.splits sum.splits)

lemma tryCatch_simps [simp]:
  "tryCatch (ret a) h = ret a"
  "tryCatch (throw e) h = h e"
  by (auto simp: tryCatch_def act_simps fun_eq_iff)

text \<open>
  The invariant rule of the combinators: an action keeps a predicate of the state whether it
  returns or throws. Each component states its frame and invariant lemmas with it.
\<close>

definition keeps :: "('s \<Rightarrow> bool) \<Rightarrow> ('s, 'a) act \<Rightarrow> bool" where
  "keeps P m \<longleftrightarrow> (\<forall>s. P s \<longrightarrow> P (snd (m s)))"

named_theorems keeps_rules \<open>actions that keep a predicate\<close>

lemma keepsD: "keeps P m \<Longrightarrow> P s \<Longrightarrow> m s = (r, t) \<Longrightarrow> P t"
  by (metis keeps_def snd_conv)

lemma keeps_basic [keeps_rules]:
  "keeps P (ret a)" "keeps P (throw e)" "keeps P (gets g)" "keeps P (fromResult r)"
  "keeps P (reads h)"
  by (simp_all add: keeps_def act_simps)

lemma keeps_modify [keeps_rules]: "(\<And>s. P s \<Longrightarrow> P (f s)) \<Longrightarrow> keeps P (modify f)"
  by (simp add: keeps_def modify_def)

lemma keeps_andThen [keeps_rules]:
  assumes "keeps P m" and "\<And>a. keeps P (f a)"
  shows "keeps P (andThen m f)"
  using assms by (fastforce simp: keeps_def andThen_def split: prod.splits sum.splits)

lemma keeps_tryCatch [keeps_rules]:
  assumes "keeps P m" and "\<And>e. keeps P (h e)"
  shows "keeps P (tryCatch m h)"
  using assms by (fastforce simp: keeps_def tryCatch_def split: prod.splits sum.splits)

lemma keeps_forEach [keeps_rules]:
  assumes "\<And>x b. keeps P (f x b)"
  shows "keeps P (forEach xs b f)"
proof (induction xs arbitrary: b)
  case Nil
  show ?case by (simp add: keeps_rules)
next
  case (Cons x xs)
  then show ?case by (auto intro: keeps_rules assms)
qed

lemma keeps_if [keeps_rules]: "keeps P m \<Longrightarrow> keeps P n \<Longrightarrow> keeps P (if b then m else n)"
  by simp

lemma keeps_option [keeps_rules]:
  assumes "keeps P m" and "\<And>a. keeps P (f a)"
  shows "keeps P (case x of None \<Rightarrow> m | Some a \<Rightarrow> f a)"
  using assms by (cases x) auto

lemma forEach_append:
  "forEach (xs @ ys) b f = andThen (forEach xs b f) (\<lambda>b'. forEach ys b' f)"
  by (induction xs arbitrary: b) (simp_all add: andThen_assoc)

end
