(* ===== verification/Rt_Strings.thy ===== *)
theory Rt_Strings
  imports Rt_Prelude
begin

text \<open>
  The string operations of the language that the runtime calls: \<^verbatim>\<open>split\<close>, \<^verbatim>\<open>join\<close>,
  \<^verbatim>\<open>startsWith\<close>, \<^verbatim>\<open>endsWith\<close>, \<^verbatim>\<open>includes\<close>, \<^verbatim>\<open>toLowerCase\<close>, \<^verbatim>\<open>Number.parseInt\<close> and
  the decimal form of a number, with the laws the components use.
\<close>

section \<open>Splitting and joining\<close>

fun split :: "char \<Rightarrow> string \<Rightarrow> string list" where
  "split c [] = [[]]"
| "split c (x # xs) =
     (if x = c then [] # split c xs
      else (case split c xs of [] \<Rightarrow> [[x]] | p # ps \<Rightarrow> (x # p) # ps))"

fun join :: "string \<Rightarrow> string list \<Rightarrow> string" where
  "join sep [] = []"
| "join sep [p] = p"
| "join sep (p # q # ps) = p @ sep @ join sep (q # ps)"

lemma split_neq_Nil [simp]: "split c s \<noteq> []"
  by (cases s) (auto split: list.split)

lemma join_Cons: "ps \<noteq> [] \<Longrightarrow> join sep (p # ps) = p @ sep @ join sep ps"
  by (cases ps) auto

lemma join_split: "join [c] (split c s) = s"
proof (induction s)
  case Nil
  show ?case by simp
next
  case (Cons x xs)
  obtain p ps where "split c xs = p # ps" by (cases "split c xs") auto
  with Cons show ?case by (cases ps) auto
qed

lemma split_free: "c \<notin> set s \<Longrightarrow> split c s = [s]"
  by (induction s) auto

lemma split_append: "c \<notin> set p \<Longrightarrow> split c (p @ c # s) = p # split c s"
  by (induction p) auto

lemma split_join:
  assumes "ps \<noteq> []" and "\<forall>p \<in> set ps. c \<notin> set p"
  shows "split c (join [c] ps) = ps"
  using assms
proof (induction ps)
  case Nil
  then show ?case by simp
next
  case (Cons p ps)
  then show ?case by (cases ps) (simp_all add: split_free split_append)
qed

lemma split_parts_free: "p \<in> set (split c s) \<Longrightarrow> c \<notin> set p"
proof (induction s arbitrary: p)
  case Nil
  then show ?case by simp
next
  case (Cons x xs)
  then show ?case by (cases "split c xs") (auto split: if_splits)
qed

lemma split_last_append:
  "split c (s @ t) = butlast (split c s) @ (last (split c s) @ hd (split c t)) # tl (split c t)"
proof (induction s)
  case Nil
  show ?case by simp
next
  case (Cons x s)
  obtain p ps where "split c s = p # ps" by (cases "split c s") auto
  with Cons show ?case by (cases ps) auto
qed

lemma split_snoc: "split c (s @ c # t) = split c s @ split c t"
proof -
  have "split c (s @ c # t) = butlast (split c s) @ [last (split c s)] @ split c t"
    by (simp add: split_last_append)
  then show ?thesis by (metis append.assoc append_butlast_last_id split_neq_Nil)
qed

section \<open>Prefixes, suffixes, infixes\<close>

definition startsWith :: "string \<Rightarrow> string \<Rightarrow> bool" where
  "startsWith s t = (take (length t) s = t)"

definition endsWith :: "string \<Rightarrow> string \<Rightarrow> bool" where
  "endsWith s t = (length t \<le> length s \<and> drop (length s - length t) s = t)"

fun contains :: "string \<Rightarrow> string \<Rightarrow> bool" where
  "contains [] t = (t = [])"
| "contains (x # xs) t = (startsWith (x # xs) t \<or> contains xs t)"

lemma startsWith_iff: "startsWith s t \<longleftrightarrow> (\<exists>u. s = t @ u)"
  by (metis startsWith_def append_eq_conv_conj)

lemma endsWith_iff: "endsWith s t \<longleftrightarrow> (\<exists>u. s = u @ t)"
proof
  assume "endsWith s t"
  then have "s = take (length s - length t) s @ t"
    by (metis endsWith_def append_take_drop_id)
  then show "\<exists>u. s = u @ t" ..
qed (auto simp: endsWith_def)

lemma contains_iff: "contains s t \<longleftrightarrow> (\<exists>u v. s = u @ t @ v)"
proof (induction s)
  case Nil
  show ?case by simp
next
  case (Cons x xs)
  show ?case
    unfolding contains.simps Cons.IH startsWith_iff
  proof
    assume "(\<exists>u. x # xs = t @ u) \<or> (\<exists>u v. xs = u @ t @ v)"
    then show "\<exists>u v. x # xs = u @ t @ v"
      by (metis append_Cons append_Nil)
  next
    assume "\<exists>u v. x # xs = u @ t @ v"
    then obtain u v where "x # xs = u @ t @ v" by blast
    then show "(\<exists>u. x # xs = t @ u) \<or> (\<exists>u v. xs = u @ t @ v)"
      by (cases u) auto
  qed
qed

lemma contains_append: "contains s t \<Longrightarrow> contains (u @ s @ v) t"
  unfolding contains_iff by (metis append.assoc)

lemma contains_trans: "contains s t \<Longrightarrow> contains t r \<Longrightarrow> contains s r"
  unfolding contains_iff by (metis append.assoc)

lemma contains_self [simp]: "contains s s"
  unfolding contains_iff by (metis append_Nil append_Nil2)

definition lowerChar :: "char \<Rightarrow> char" where
  "lowerChar c =
     (let n = (of_char c :: nat) in if 65 \<le> n \<and> n \<le> 90 then char_of (n + 32) else c)"

definition toLowerCase :: "string \<Rightarrow> string" where
  "toLowerCase = map lowerChar"

section \<open>Decimal numbers\<close>

definition digitChar :: "nat \<Rightarrow> char" where
  "digitChar d = char_of (48 + d)"

definition isDigit :: "char \<Rightarrow> bool" where
  "isDigit c = (let n = (of_char c :: nat) in 48 \<le> n \<and> n \<le> 57)"

definition digitValue :: "char \<Rightarrow> nat" where
  "digitValue c = of_char c - 48"

fun showNat :: "nat \<Rightarrow> string" where
  "showNat n = (if n < 10 then [digitChar n] else showNat (n div 10) @ [digitChar (n mod 10)])"

declare showNat.simps [simp del]

definition showInt :: "int \<Rightarrow> string" where
  "showInt i = (if i < 0 then CHR ''-'' # showNat (nat (- i)) else showNat (nat i))"

definition digitsValue :: "string \<Rightarrow> nat" where
  "digitsValue ds = foldl (\<lambda>n c. 10 * n + digitValue c) 0 ds"

text \<open>
  \<^verbatim>\<open>Number.parseInt(s, 10)\<close>: leading white space is skipped, then an optional sign and the
  longest run of decimal digits; \<^const>\<open>None\<close> is \<^verbatim>\<open>NaN\<close>. The white space characters beyond
  ASCII are listed in their UTF-8 form.
\<close>

definition whiteSpaces :: "string list" where
  "whiteSpaces =
     [[CHR 0x09], [CHR 0x0A], [CHR 0x0B], [CHR 0x0C], [CHR 0x0D], [CHR 0x20],
      [CHR 0xC2, CHR 0xA0], [CHR 0xE1, CHR 0x9A, CHR 0x80]]
     @ map (\<lambda>b. [CHR 0xE2, CHR 0x80, b])
         [CHR 0x80, CHR 0x81, CHR 0x82, CHR 0x83, CHR 0x84, CHR 0x85, CHR 0x86, CHR 0x87,
          CHR 0x88, CHR 0x89, CHR 0x8A, CHR 0xA8, CHR 0xA9, CHR 0xAF]
     @ [[CHR 0xE2, CHR 0x81, CHR 0x9F], [CHR 0xE3, CHR 0x80, CHR 0x80],
        [CHR 0xEF, CHR 0xBB, CHR 0xBF]]"

fun trimStart :: "nat \<Rightarrow> string \<Rightarrow> string" where
  "trimStart 0 s = s"
| "trimStart (Suc k) s =
     (case find (startsWith s) whiteSpaces of
        None \<Rightarrow> s
      | Some w \<Rightarrow> trimStart k (drop (length w) s))"

definition parseSigned :: "string \<Rightarrow> int option" where
  "parseSigned s =
     (let neg = startsWith s ''-'';
          t = (if neg \<or> startsWith s ''+'' then drop 1 s else s);
          ds = takeWhile isDigit t
      in if ds = [] then None
         else Some (if neg then - int (digitsValue ds) else int (digitsValue ds)))"

definition parseInt :: "string \<Rightarrow> int option" where
  "parseInt s = parseSigned (trimStart (length s) s)"

text \<open>Evaluating the decimal form of a numeral.\<close>

lemma digitChar_table:
  "digitChar 0 = CHR ''0''" "digitChar (Suc 0) = CHR ''1''" "digitChar 2 = CHR ''2''"
  "digitChar 3 = CHR ''3''" "digitChar 4 = CHR ''4''" "digitChar 5 = CHR ''5''"
  "digitChar 6 = CHR ''6''" "digitChar 7 = CHR ''7''" "digitChar 8 = CHR ''8''"
  "digitChar 9 = CHR ''9''"
  by code_simp+

lemmas show_eval = showNat.simps digitChar_table

lemma of_char_digitChar: "d < 10 \<Longrightarrow> (of_char (digitChar d) :: nat) = 48 + d"
  by (simp add: digitChar_def)

lemma isDigit_digitChar: "d < 10 \<Longrightarrow> isDigit (digitChar d)"
  by (simp add: isDigit_def of_char_digitChar)

lemma digitValue_digitChar: "d < 10 \<Longrightarrow> digitValue (digitChar d) = d"
  by (simp add: digitValue_def of_char_digitChar)

lemma showNat_neq_Nil [simp]: "showNat n \<noteq> []"
  by (subst showNat.simps) simp

lemma showNat_digits: "c \<in> set (showNat n) \<Longrightarrow> isDigit c"
proof (induction n rule: showNat.induct)
  case (1 n)
  show ?case
  proof (cases "n < 10")
    case True
    with "1.prems" show ?thesis by (simp add: showNat.simps [of n] isDigit_digitChar)
  next
    case False
    then have "showNat n = showNat (n div 10) @ [digitChar (n mod 10)]"
      by (simp add: showNat.simps [of n])
    with False "1.IH" "1.prems" show ?thesis by (auto intro: isDigit_digitChar)
  qed
qed

lemma digitsValue_snoc: "digitsValue (ds @ [c]) = 10 * digitsValue ds + digitValue c"
  by (simp add: digitsValue_def)

lemma digitsValue_showNat: "digitsValue (showNat n) = n"
proof (induction n rule: showNat.induct)
  case (1 n)
  show ?case
  proof (cases "n < 10")
    case True
    then show ?thesis
      by (simp add: showNat.simps [of n] digitsValue_def digitValue_digitChar)
  next
    case False
    with "1.IH" show ?thesis
      by (simp add: showNat.simps [of n] digitsValue_snoc digitValue_digitChar)
  qed
qed

lemma showNat_inject [simp]: "showNat m = showNat n \<longleftrightarrow> m = n"
  by (metis digitsValue_showNat)

lemma digit_not_sign: "isDigit c \<Longrightarrow> c \<noteq> CHR ''-'' \<and> c \<noteq> CHR ''+''"
  by (auto simp: isDigit_def)

lemma whiteSpaces_heads: "\<forall>w \<in> set whiteSpaces. w \<noteq> [] \<and> \<not> isDigit (hd w)"
  by code_simp

lemma trimStart_digit:
  assumes "isDigit c"
  shows "trimStart k (c # s) = c # s"
proof (cases k)
  case (Suc j)
  have "find (startsWith (c # s)) whiteSpaces = None"
    unfolding find_None_iff
  proof clarify
    fix w assume w: "w \<in> set whiteSpaces" "startsWith (c # s) w"
    then obtain u where u: "c # s = w @ u" unfolding startsWith_iff by blast
    from w(1) whiteSpaces_heads have "w \<noteq> []" "\<not> isDigit (hd w)" by blast+
    with u assms show False by (metis hd_append list.sel(1))
  qed
  with Suc show ?thesis by simp
qed simp

lemma parseInt_digits:
  assumes "ds \<noteq> []" and "\<forall>c \<in> set ds. isDigit c"
  shows "parseInt ds = Some (int (digitsValue ds))"
proof -
  obtain c s where ds: "ds = c # s" using assms(1) by (cases ds) auto
  with assms(2) have c: "isDigit c" by simp
  from c have "trimStart (length ds) ds = ds" by (simp only: ds trimStart_digit)
  moreover have tw: "takeWhile isDigit ds = ds" using assms(2) by simp
  moreover have "\<not> startsWith ds ''-''" "\<not> startsWith ds ''+''"
    using digit_not_sign [OF c] by (simp_all add: ds startsWith_def)
  ultimately show ?thesis
    using assms(1) by (simp add: parseInt_def parseSigned_def Let_def tw)
qed

lemma parseInt_showNat: "parseInt (showNat n) = Some (int n)"
  by (simp add: parseInt_digits showNat_digits digitsValue_showNat)

end
