(* ===== verification/Rt_Path.thy ===== *)
theory Rt_Path
  imports Rt_Strings
begin

text \<open>
  The functions of \<^verbatim>\<open>node:path\<close> (POSIX) the runtime builds its file names with:
  \<^verbatim>\<open>path.join\<close> with its normalisation, and \<^verbatim>\<open>path.basename\<close> with a suffix. A file is
  addressed by its key, the list of components of its normalised absolute path.
\<close>

section \<open>Normalisation and join\<close>

text \<open>
  \<open>normComps up acc cs\<close> resolves the empty, \<^verbatim>\<open>.\<close> and \<^verbatim>\<open>..\<close> components of \<open>cs\<close>; \<open>acc\<close>
  holds the resolved ones, last first, and \<open>up\<close> says whether \<^verbatim>\<open>..\<close> may climb above the
  start, which only a relative path may.
\<close>

fun normComps :: "bool \<Rightarrow> string list \<Rightarrow> string list \<Rightarrow> string list" where
  "normComps up acc [] = rev acc"
| "normComps up acc (c # cs) =
     (if c = [] \<or> c = ''.'' then normComps up acc cs
      else if c = ''..'' then
        (case acc of
           [] \<Rightarrow> if up then normComps up [''..''] cs else normComps up [] cs
         | x # xs \<Rightarrow>
             if x \<noteq> ''..'' then normComps up xs cs
             else if up then normComps up (''..'' # acc) cs
             else normComps up acc cs)
      else normComps up (c # acc) cs)"

definition pathNormalize :: "string \<Rightarrow> string" where
  "pathNormalize p =
     (if p = [] then ''.''
      else
        let isAbsolute = startsWith p ''/'';
            trailing = endsWith p ''/'';
            q = join ''/'' (normComps (\<not> isAbsolute) [] (split CHR ''/'' p))
        in if q = [] then (if isAbsolute then ''/'' else if trailing then ''./'' else ''.'')
           else (if isAbsolute then ''/'' else []) @ q @ (if trailing then ''/'' else []))"

definition pathJoin :: "string list \<Rightarrow> string" where
  "pathJoin ps =
     (let qs = filter (\<lambda>p. p \<noteq> []) ps
      in if qs = [] then ''.'' else pathNormalize (join ''/'' qs))"

definition pathBasename :: "string \<Rightarrow> string \<Rightarrow> string" where
  "pathBasename p suffix =
     (if suffix = p then []
      else
        let cs = filter (\<lambda>c. c \<noteq> []) (split CHR ''/'' p);
            base = (if cs = [] then [] else last cs)
        in if endsWith base suffix \<and> base \<noteq> suffix
           then take (length base - length suffix) base else base)"

text \<open>The key of an absolute path: its components.\<close>

definition pathKey :: "string \<Rightarrow> string list" where
  "pathKey p = filter (\<lambda>c. c \<noteq> []) (split CHR ''/'' p)"

text \<open>A name that is one component and stays where it is put.\<close>

definition plainName :: "string \<Rightarrow> bool" where
  "plainName c = (c \<noteq> [] \<and> c \<noteq> ''.'' \<and> c \<noteq> ''..'' \<and> CHR ''/'' \<notin> set c)"

section \<open>Lemmas\<close>

lemma normComps_append:
  "normComps up acc (cs @ ds) = normComps up (rev (normComps up acc cs)) ds"
proof (induction cs arbitrary: acc)
  case Nil
  show ?case by simp
next
  case (Cons c cs)
  then show ?case by (cases acc; cases up) simp_all
qed

lemma plainName_simps:
  assumes "plainName c"
  shows "c \<noteq> []" "c \<noteq> ''.''" "c \<noteq> ''..''" "CHR ''/'' \<notin> set c"
  using assms by (simp_all add: plainName_def)

lemma normComps_plain_Cons:
  "plainName c \<Longrightarrow> normComps up acc (c # cs) = normComps up (c # acc) cs"
  by (simp add: plainName_simps)

lemma normComps_plain:
  "\<forall>c \<in> set cs. plainName c \<Longrightarrow> normComps up acc cs = rev acc @ cs"
proof (induction cs arbitrary: acc)
  case Nil
  show ?case by simp
next
  case (Cons c cs)
  then show ?case by (simp only: normComps_plain_Cons list.set_intros) simp
qed

lemma normComps_set:
  "\<forall>c \<in> set acc. plainName c \<Longrightarrow> \<forall>c \<in> set cs. CHR ''/'' \<notin> set c \<Longrightarrow>
     \<forall>c \<in> set (normComps False acc cs). plainName c"
proof (induction cs arbitrary: acc)
  case Nil
  then show ?case by simp
next
  case (Cons c cs)
  consider "c = [] \<or> c = ''.''" | "c = ''..''" | "plainName c"
    using Cons.prems(2) by (auto simp: plainName_def)
  then show ?case
  proof cases
    case 1
    then have "normComps False acc (c # cs) = normComps False acc cs" by auto
    with Cons.IH [OF Cons.prems(1)] Cons.prems(2) show ?thesis by simp
  next
    case 2
    have "normComps False acc (c # cs) = normComps False (tl acc) cs"
      using 2 Cons.prems(1) by (cases acc) (auto simp: plainName_def)
    moreover have "\<forall>c \<in> set (tl acc). plainName c"
      using Cons.prems(1) by (cases acc) auto
    ultimately show ?thesis using Cons.IH [of "tl acc"] Cons.prems(2) by simp
  next
    case 3
    then have "\<forall>c \<in> set (c # acc). plainName c" using Cons.prems(1) by simp
    from Cons.IH [OF this] Cons.prems(2) 3 show ?thesis by (simp only: normComps_plain_Cons) simp
  qed
qed

lemma normComps_split_plain:
  "\<forall>c \<in> set (normComps False [] (split CHR ''/'' p)). plainName c"
  by (rule normComps_set) (auto dest: split_parts_free)

lemma pathKey_join_plain:
  assumes "\<forall>c \<in> set cs. plainName c"
  shows "pathKey (CHR ''/'' # join ''/'' cs) = cs" "pathKey (CHR ''/'' # join ''/'' cs @ ''/'') = cs"
proof -
  have ne: "\<forall>c \<in> set cs. c \<noteq> []" and free: "\<forall>c \<in> set cs. CHR ''/'' \<notin> set c"
    using assms by (auto simp: plainName_def)
  have sp: "split CHR ''/'' (join ''/'' cs) = (if cs = [] then [[]] else cs)"
    using free by (auto simp: split_join)
  from ne have f: "filter (\<lambda>c. c \<noteq> []) cs = cs" by simp
  show "pathKey (CHR ''/'' # join ''/'' cs) = cs"
    using sp f by (simp add: pathKey_def)
  show "pathKey (CHR ''/'' # join ''/'' cs @ ''/'') = cs"
    using sp f by (simp add: pathKey_def split_snoc [of _ _ "[]", simplified])
qed

lemma pathKey_normalize:
  assumes "startsWith p ''/''"
  shows "pathKey (pathNormalize p) = normComps False [] (split CHR ''/'' p)"
proof -
  let ?cs = "normComps False [] (split CHR ''/'' p)"
  have plain: "\<forall>c \<in> set ?cs. plainName c" by (rule normComps_split_plain)
  have "p \<noteq> []" using assms by (auto simp: startsWith_def)
  moreover have "?cs = []" if "join ''/'' ?cs = []"
    using that plain by (cases ?cs; cases "tl ?cs") (auto simp: plainName_def)
  ultimately show ?thesis
    using assms pathKey_join_plain [OF plain]
    by (auto simp: pathNormalize_def Let_def pathKey_def)
qed

text \<open>
  A canonical path is absolute and made of plain components; \<^verbatim>\<open>path.join\<close> onto an absolute
  path gives one, and joining a plain name onto it appends that name to its key.
\<close>

definition canonical :: "string \<Rightarrow> bool" where
  "canonical p \<longleftrightarrow> startsWith p ''/'' \<and> (\<forall>c \<in> set (pathKey p). plainName c)"

lemma normComps_skip: "normComps up acc (filter (\<lambda>c. c \<noteq> []) cs) = normComps up acc cs"
proof (induction cs arbitrary: acc)
  case Nil
  show ?case by simp
next
  case (Cons c cs)
  then show ?case by (cases "c = []"; cases acc; cases up; simp)
qed

lemma normComps_canonical:
  assumes "canonical p"
  shows "normComps False [] (split CHR ''/'' p) = pathKey p"
proof -
  have "normComps False [] (split CHR ''/'' p) = normComps False [] (pathKey p)"
    unfolding pathKey_def by (rule normComps_skip [symmetric])
  also have "\<dots> = pathKey p"
    using assms by (simp add: canonical_def normComps_plain)
  finally show ?thesis .
qed

lemma canonical_normalize:
  assumes "startsWith p ''/''"
  shows "canonical (pathNormalize p)"
proof -
  have "startsWith (pathNormalize p) ''/''"
    using assms by (auto simp: pathNormalize_def Let_def startsWith_def)
  then show ?thesis
    using pathKey_normalize [OF assms] normComps_split_plain by (simp add: canonical_def)
qed

lemma startsWith_join: "startsWith r ''/'' \<Longrightarrow> startsWith (join ''/'' (r # ps)) ''/''"
  by (cases ps) (auto simp: startsWith_iff)

lemma pathJoin_absolute:
  assumes "startsWith r ''/''"
  shows "canonical (pathJoin (r # ps))"
    and "pathKey (pathJoin (r # ps)) =
      normComps False [] (split CHR ''/'' (join ''/'' (r # filter (\<lambda>p. p \<noteq> []) ps)))"
  using assms startsWith_join [OF assms] canonical_normalize pathKey_normalize
  by (auto simp: pathJoin_def Let_def startsWith_def)

lemma split_join_absolute:
  "split CHR ''/'' (r @ ''/'' @ q) = split CHR ''/'' r @ split CHR ''/'' q"
  using split_snoc [of "CHR ''/''" r q] by simp

text \<open>What joining onto a canonical path does to its key, for any text of one segment or more.\<close>

lemma pathKey_pathJoin:
  assumes "canonical r" and "q \<noteq> []"
  shows "pathKey (pathJoin [r, q]) = normComps False (rev (pathKey r)) (split CHR ''/'' q)"
proof -
  have "startsWith r ''/''" using assms(1) by (simp add: canonical_def)
  then show ?thesis
    using assms(2) split_join_absolute [of r q]
    by (simp add: pathJoin_absolute normComps_append normComps_canonical [OF assms(1)])
qed

lemma pathKey_pathJoin_names:
  assumes "canonical r" and "cs \<noteq> []" and plain: "\<forall>c \<in> set cs. plainName c"
  shows "pathKey (pathJoin (r # cs)) = pathKey r @ cs"
proof -
  have abs: "startsWith r ''/''" using assms(1) by (simp add: canonical_def)
  have "filter (\<lambda>c. c \<noteq> []) cs = cs" using plain by (simp add: plainName_def)
  moreover have "split CHR ''/'' (join ''/'' cs) = cs"
    using assms(2) plain by (simp add: split_join plainName_def)
  ultimately have "pathKey (pathJoin (r # cs)) =
      normComps False [] (split CHR ''/'' r @ cs)"
    using pathJoin_absolute(2) [OF abs, of cs] split_join_absolute [of r "join ''/'' cs"] assms(2)
    by (simp add: join_Cons)
  then show ?thesis
    using plain by (simp add: normComps_append normComps_canonical [OF assms(1)] normComps_plain)
qed

lemma pathKey_pathJoin_plain [path_simps]:
  "canonical r \<Longrightarrow> plainName c \<Longrightarrow> pathKey (pathJoin [r, c]) = pathKey r @ [c]"
  by (simp add: pathKey_pathJoin_names)

lemma canonical_pathJoin [path_simps]: "canonical r \<Longrightarrow> canonical (pathJoin (r # ps))"
  by (rule pathJoin_absolute) (simp add: canonical_def)

end
