(* ===== verification/Rt_Map.thy ===== *)
theory Rt_Map
  imports Rt_Prelude
begin

text \<open>
  The JavaScript \<^verbatim>\<open>Map\<close> and \<^verbatim>\<open>Set\<close> the runtime keeps its tables in: entries in insertion
  order, \<^verbatim>\<open>set\<close> on a present key keeps its place, and the list of keys is what
  \<^verbatim>\<open>entries()\<close> iterates over. The locale states the contract the clients
  (module cache, consumer table) rely on; the interpretation at the end discharges it.
\<close>

section \<open>The map\<close>

type_synonym ('k, 'v) jsmap = "('k \<times> 'v) list"

definition mapGet :: "('k, 'v) jsmap \<Rightarrow> 'k \<Rightarrow> 'v option" where
  "mapGet m k = map_of m k"

definition mapHas :: "('k, 'v) jsmap \<Rightarrow> 'k \<Rightarrow> bool" where
  "mapHas m k = (mapGet m k \<noteq> None)"

fun mapSet :: "'k \<Rightarrow> 'v \<Rightarrow> ('k, 'v) jsmap \<Rightarrow> ('k, 'v) jsmap" where
  "mapSet k v [] = [(k, v)]"
| "mapSet k v ((k', v') # m) = (if k' = k then (k, v) # m else (k', v') # mapSet k v m)"

definition mapDelete :: "'k \<Rightarrow> ('k, 'v) jsmap \<Rightarrow> ('k, 'v) jsmap" where
  "mapDelete k m = filter (\<lambda>(k', v). k' \<noteq> k) m"

definition mapKeys :: "('k, 'v) jsmap \<Rightarrow> 'k list" where
  "mapKeys m = map fst m"

definition mapInv :: "('k, 'v) jsmap \<Rightarrow> bool" where
  "mapInv m = distinct (mapKeys m)"

lemma mapGet_set: "mapGet (mapSet k v m) = (mapGet m)(k \<mapsto> v)"
  by (induction m) (auto simp: mapGet_def fun_eq_iff)

lemma mapGet_delete: "mapGet (mapDelete k m) = (mapGet m)(k := None)"
  by (induction m) (auto simp: mapGet_def mapDelete_def fun_eq_iff)

lemma mapKeys_set: "mapKeys (mapSet k v m) = (if mapHas m k then mapKeys m else mapKeys m @ [k])"
  by (induction m) (auto simp: mapKeys_def mapHas_def mapGet_def)

lemma mapKeys_delete: "mapKeys (mapDelete k m) = filter (\<lambda>k'. k' \<noteq> k) (mapKeys m)"
  by (induction m) (auto simp: mapKeys_def mapDelete_def)

lemma mapHas_keys: "mapHas m k \<longleftrightarrow> k \<in> set (mapKeys m)"
  by (induction m) (auto simp: mapHas_def mapGet_def mapKeys_def)

lemma mapInv_set: "mapInv m \<Longrightarrow> mapInv (mapSet k v m)"
  by (simp add: mapInv_def mapKeys_set mapHas_keys)

lemma mapInv_delete: "mapInv m \<Longrightarrow> mapInv (mapDelete k m)"
  by (simp add: mapInv_def mapKeys_delete)

lemma mapGet_empty [simp]: "mapGet [] k = None"
  by (simp add: mapGet_def)

lemma mapInv_empty [simp]: "mapInv []"
  by (simp add: mapInv_def mapKeys_def)

section \<open>The set\<close>

definition setAdd :: "'a \<Rightarrow> 'a list \<Rightarrow> 'a list" where
  "setAdd x xs = (if x \<in> set xs then xs else xs @ [x])"

definition newSet :: "'a list \<Rightarrow> 'a list" where
  "newSet xs = fold setAdd xs []"

lemma setAdd_set [simp]: "set (setAdd x xs) = insert x (set xs)"
  by (auto simp: setAdd_def)

lemma setAdd_distinct: "distinct xs \<Longrightarrow> distinct (setAdd x xs)"
  by (simp add: setAdd_def)

lemma fold_setAdd: "set (fold setAdd xs ys) = set xs \<union> set ys"
  by (induction xs arbitrary: ys) auto

lemma fold_setAdd_distinct: "distinct ys \<Longrightarrow> distinct (fold setAdd xs ys)"
  by (induction xs arbitrary: ys) (auto simp: setAdd_distinct)

lemma newSet_set [simp]: "set (newSet xs) = set xs"
  by (simp add: newSet_def fold_setAdd)

lemma newSet_distinct [simp]: "distinct (newSet xs)"
  by (simp add: newSet_def fold_setAdd_distinct)

lemma fold_setAdd_fresh:
  "distinct (ys @ xs) \<Longrightarrow> fold setAdd xs ys = ys @ xs"
  by (induction xs arbitrary: ys) (auto simp: setAdd_def)

lemma newSet_id: "distinct xs \<Longrightarrow> newSet xs = xs"
  by (simp add: newSet_def fold_setAdd_fresh)

section \<open>The contract of a table keyed by name\<close>

locale keyed_table =
  fixes get :: "'m \<Rightarrow> 'k \<Rightarrow> 'v option"
    and put :: "'k \<Rightarrow> 'v \<Rightarrow> 'm \<Rightarrow> 'm"
    and del :: "'k \<Rightarrow> 'm \<Rightarrow> 'm"
    and keys :: "'m \<Rightarrow> 'k list"
    and ok :: "'m \<Rightarrow> bool"
  assumes get_put: "get (put k v m) = (get m)(k \<mapsto> v)"
    and get_del: "get (del k m) = (get m)(k := None)"
    and keys_get: "k \<in> set (keys m) \<longleftrightarrow> get m k \<noteq> None"
    and ok_put: "ok m \<Longrightarrow> ok (put k v m)"
    and ok_del: "ok m \<Longrightarrow> ok (del k m)"
    and ok_keys: "ok m \<Longrightarrow> distinct (keys m)"
begin

lemma dom_keys: "set (keys m) = dom (get m)"
  by (auto simp: keys_get)

lemma get_dels: "get (fold del ks m) = (get m) |` (- set ks)"
proof (induction ks arbitrary: m)
  case Nil
  show ?case by simp
next
  case (Cons k ks)
  then show ?case by (auto simp: get_del restrict_map_def fun_eq_iff)
qed

lemma ok_dels: "ok m \<Longrightarrow> ok (fold del ks m)"
  by (induction ks arbitrary: m) (auto intro: ok_del)

lemma keys_put: "set (keys (put k v m)) = insert k (set (keys m))"
  by (auto simp: dom_keys get_put)

lemma keys_del: "set (keys (del k m)) = set (keys m) - {k}"
  by (auto simp: dom_keys get_del)

lemma get_keys_Some: "k \<in> set (keys m) \<Longrightarrow> \<exists>v. get m k = Some v"
  by (auto simp: keys_get)

text \<open>Dropping every key that is not wanted, the first loop of a reconciliation.\<close>

lemma keys_drop_unwanted:
  "set (keys (fold del (filter (\<lambda>k. k \<notin> D) (keys m)) m)) = set (keys m) \<inter> D"
  by (auto simp: dom_keys get_dels)

end

interpretation jsm: keyed_table mapGet mapSet mapDelete mapKeys mapInv
  by unfold_locales
    (auto simp: mapGet_set mapGet_delete mapInv_set mapInv_delete mapHas_keys [symmetric]
      mapHas_def mapInv_def [symmetric] intro: mapInv_def [THEN iffD1])

end
