(* ===== verification/Rt_Files.thy ===== *)
theory Rt_Files
  imports Rt_Path Rt_Map
begin

text \<open>
  The file system as the runtime uses it through \<^verbatim>\<open>node:fs/promises\<close>: \<^verbatim>\<open>stat\<close>, \<^verbatim>\<open>mkdir\<close>,
  \<^verbatim>\<open>readdir\<close>, \<^verbatim>\<open>readFile\<close>, \<^verbatim>\<open>writeFile\<close> and \<^verbatim>\<open>rm\<close>, with the errors they raise on a missing
  entry and on a directory where a file is expected. Files and directories are held in
  a table keyed by path; symbolic links, permissions and device errors are left out.
  The order of the table is the order \<^verbatim>\<open>readdir\<close> reports, so it is arbitrary.
\<close>

section \<open>Nodes and tables\<close>

datatype node = File bytes | Dir

type_synonym fs = "(string list, node) jsmap"

definition fsStat :: "fs \<Rightarrow> string list \<Rightarrow> node option" where
  "fsStat fs k = (if k = [] then Some Dir else mapGet fs k)"

text \<open>Every entry lies in a directory, and no path occurs twice.\<close>

definition fsInv :: "fs \<Rightarrow> bool" where
  "fsInv fs \<longleftrightarrow> mapInv fs \<and> [] \<notin> set (mapKeys fs) \<and>
     (\<forall>k \<in> set (mapKeys fs). fsStat fs (butlast k) = Some Dir)"

definition fsError :: "string \<Rightarrow> string \<Rightarrow> string \<Rightarrow> js_error" where
  "fsError what call p =
     JsError ''Error'' (what @ '', '' @ call @ '' '' @ [CHR 0x27] @ p @ [CHR 0x27])"

abbreviation (input) noEntry :: string where
  "noEntry \<equiv> ''ENOENT: no such file or directory''"

section \<open>Operations\<close>

definition fsExists :: "fs \<Rightarrow> string \<Rightarrow> bool" where
  "fsExists fs p = (fsStat fs (pathKey p) \<noteq> None)"

definition fsEntries :: "fs \<Rightarrow> string list \<Rightarrow> string list" where
  "fsEntries fs k = map last (filter (\<lambda>x. x \<noteq> [] \<and> butlast x = k) (mapKeys fs))"

definition fsReaddir :: "fs \<Rightarrow> string \<Rightarrow> js_error + string list" where
  "fsReaddir fs p =
     (case fsStat fs (pathKey p) of
        None \<Rightarrow> Inl (fsError noEntry ''scandir'' p)
      | Some (File b) \<Rightarrow> Inl (fsError ''ENOTDIR: not a directory'' ''scandir'' p)
      | Some Dir \<Rightarrow> Inr (fsEntries fs (pathKey p)))"

definition fsReadFile :: "fs \<Rightarrow> string \<Rightarrow> js_error + bytes" where
  "fsReadFile fs p =
     (case fsStat fs (pathKey p) of
        None \<Rightarrow> Inl (fsError noEntry ''open'' p)
      | Some Dir \<Rightarrow> Inl (fsError ''EISDIR: illegal operation on a directory'' ''read'' p)
      | Some (File b) \<Rightarrow> Inr b)"

definition fsWriteFile :: "string \<Rightarrow> bytes \<Rightarrow> fs \<Rightarrow> js_error + fs" where
  "fsWriteFile p b fs =
     (if fsStat fs (pathKey p) = Some Dir
      then Inl (fsError ''EISDIR: illegal operation on a directory'' ''open'' p)
      else (case fsStat fs (butlast (pathKey p)) of
              None \<Rightarrow> Inl (fsError noEntry ''open'' p)
            | Some (File c) \<Rightarrow> Inl (fsError ''ENOTDIR: not a directory'' ''open'' p)
            | Some Dir \<Rightarrow> Inr (mapSet (pathKey p) (File b) fs)))"

text \<open>\<^verbatim>\<open>rm(p, { force: true })\<close>: a missing entry is no error, a directory is one.\<close>

definition fsRmForce :: "string \<Rightarrow> fs \<Rightarrow> js_error + fs" where
  "fsRmForce p fs =
     (case fsStat fs (pathKey p) of
        None \<Rightarrow> Inr fs
      | Some Dir \<Rightarrow> Inl (fsError ''ERR_FS_EISDIR: Path is a directory'' ''rm'' p)
      | Some (File b) \<Rightarrow> Inr (mapDelete (pathKey p) fs))"

text \<open>\<^verbatim>\<open>mkdir(p, { recursive: true })\<close>, from the top component down.\<close>

fun mkdirs :: "string \<Rightarrow> string list \<Rightarrow> string list \<Rightarrow> fs \<Rightarrow> js_error + fs" where
  "mkdirs p done [] fs = Inr fs"
| "mkdirs p done (c # cs) fs =
     (case fsStat fs (done @ [c]) of
        Some Dir \<Rightarrow> mkdirs p (done @ [c]) cs fs
      | None \<Rightarrow> mkdirs p (done @ [c]) cs (mapSet (done @ [c]) Dir fs)
      | Some (File b) \<Rightarrow>
          Inl (fsError (if cs = [] then ''EEXIST: file already exists''
                        else ''ENOTDIR: not a directory'') ''mkdir'' p))"

definition fsMkdir :: "string \<Rightarrow> fs \<Rightarrow> js_error + fs" where
  "fsMkdir p fs = mkdirs p [] (pathKey p) fs"

section \<open>Lemmas\<close>

lemma fsStat_set: "k \<noteq> [] \<Longrightarrow> fsStat (mapSet k v fs) x = (if x = k then Some v else fsStat fs x)"
  by (simp add: fsStat_def mapGet_set)

lemma fsStat_delete: "k \<noteq> [] \<Longrightarrow> fsStat (mapDelete k fs) x = (if x = k then None else fsStat fs x)"
  by (simp add: fsStat_def mapGet_delete)

lemma fsStat_keys: "x \<noteq> [] \<Longrightarrow> x \<in> set (mapKeys fs) \<longleftrightarrow> fsStat fs x \<noteq> None"
  by (simp add: fsStat_def jsm.keys_get)

lemma fsInv_parent:
  assumes "fsInv fs" and "fsStat fs (k @ [c]) = Some n"
  shows "fsStat fs k = Some Dir"
  using assms fsStat_keys [of "k @ [c]" fs] by (force simp: fsInv_def)

text \<open>Entering an entry in an existing directory keeps the invariant.\<close>

lemma fsInv_set:
  assumes "fsInv fs" and "k \<noteq> []" and "fsStat fs (butlast k) = Some Dir"
    and "v = Dir \<or> fsStat fs k \<noteq> Some Dir"
  shows "fsInv (mapSet k v fs)"
proof -
  have "fsStat (mapSet k v fs) (butlast x) = Some Dir" if "x \<in> insert k (set (mapKeys fs))" for x
    using that assms by (auto simp: fsStat_set fsInv_def)
  then show ?thesis
    using assms(1,2) by (auto simp: fsInv_def jsm.keys_put mapInv_set)
qed

text \<open>Dropping a file keeps it: a file is the directory of nothing.\<close>

lemma fsInv_delete:
  assumes "fsInv fs" and "fsStat fs k = Some (File b)"
  shows "fsInv (mapDelete k fs)"
proof -
  have k: "k \<noteq> []" using assms(2) by (auto simp: fsStat_def)
  have "fsStat (mapDelete k fs) (butlast x) = Some Dir" if "x \<in> set (mapKeys fs)" for x
    using that assms k by (auto simp: fsStat_delete fsInv_def)
  then show ?thesis
    using assms(1) by (auto simp: fsInv_def jsm.keys_del mapInv_delete)
qed

lemma fsWriteFile_Inr:
  assumes "fsWriteFile p b fs = Inr fs'"
  shows "fs' = mapSet (pathKey p) (File b) fs" "pathKey p \<noteq> []"
    "fsStat fs (pathKey p) \<noteq> Some Dir" "fsStat fs (butlast (pathKey p)) = Some Dir"
  using assms by (auto simp: fsWriteFile_def fsStat_def split: if_splits option.splits node.splits)

lemma fsStat_File_neq_Nil: "fsStat fs k = Some (File b) \<Longrightarrow> k \<noteq> []"
  by (auto simp: fsStat_def)

lemma fsRmForce_Inr:
  assumes "fsRmForce p fs = Inr fs'"
  shows "fsStat fs (pathKey p) \<noteq> Some Dir"
    and "fsStat fs' x = (if x = pathKey p then None else fsStat fs x)"
  using assms fsStat_File_neq_Nil [of fs "pathKey p"]
  by (auto simp: fsRmForce_def fsStat_delete split: option.splits node.splits)

lemma fsRmForce_total: "fsStat fs (pathKey p) \<noteq> Some Dir \<Longrightarrow> \<exists>f. fsRmForce p fs = Inr f"
  by (auto simp: fsRmForce_def split: option.splits node.splits)

lemma fsWriteFile_stat:
  assumes "fsWriteFile p b fs = Inr fs'"
  shows "fsStat fs' x = (if x = pathKey p then Some (File b) else fsStat fs x)"
  using fsWriteFile_Inr [OF assms] by (simp add: fsStat_set)

lemma fsInv_write:
  assumes "fsInv fs" and "fsWriteFile p b fs = Inr fs'"
  shows "fsInv fs'"
  using fsWriteFile_Inr [OF assms(2)] assms(1) by (auto intro: fsInv_set)

lemma fsInv_rm: "fsInv fs \<Longrightarrow> fsRmForce p fs = Inr fs' \<Longrightarrow> fsInv fs'"
  by (auto simp: fsRmForce_def split: option.splits node.splits intro: fsInv_delete)

lemma fsEntries_iff:
  assumes "fsInv fs"
  shows "c \<in> set (fsEntries fs k) \<longleftrightarrow> fsStat fs (k @ [c]) \<noteq> None"
proof -
  have "c \<in> set (fsEntries fs k) \<longleftrightarrow> k @ [c] \<in> set (mapKeys fs)"
  proof
    assume "c \<in> set (fsEntries fs k)"
    then obtain x where "x \<in> set (mapKeys fs)" "x \<noteq> []" "butlast x = k" "last x = c"
      by (auto simp: fsEntries_def)
    then show "k @ [c] \<in> set (mapKeys fs)" by auto
  next
    assume "k @ [c] \<in> set (mapKeys fs)"
    then show "c \<in> set (fsEntries fs k)"
      by (force simp: fsEntries_def image_iff)
  qed
  then show ?thesis by (simp add: fsStat_keys)
qed

lemma fsEntries_distinct:
  assumes "fsInv fs"
  shows "distinct (fsEntries fs k)"
proof -
  have "inj_on last {x. x \<noteq> [] \<and> butlast x = k}"
    by (rule inj_onI) (metis (mono_tags) append_butlast_last_id mem_Collect_eq)
  then have "inj_on last (set (filter (\<lambda>x. x \<noteq> [] \<and> butlast x = k) (mapKeys fs)))"
    by (rule inj_on_subset) auto
  with assms show ?thesis
    by (simp add: fsEntries_def fsInv_def mapInv_def distinct_map)
qed

lemma mkdirs_Inr:
  assumes "fsInv fs" and "fsStat fs k = Some Dir" and "mkdirs p k cs fs = Inr fs'"
  shows "fsInv fs' \<and> fsStat fs' (k @ cs) = Some Dir
    \<and> (\<forall>x. fsStat fs' x = fsStat fs x
         \<or> fsStat fs x = None \<and> fsStat fs' x = Some Dir \<and> (\<exists>ys. k @ cs = x @ ys))"
  using assms
proof (induction cs arbitrary: k fs)
  case Nil
  then show ?case by simp
next
  case (Cons c cs)
  show ?case
  proof (cases "fsStat fs (k @ [c])")
    case None
    let ?fs = "mapSet (k @ [c]) Dir fs"
    have st: "fsStat ?fs x = (if x = k @ [c] then Some Dir else fsStat fs x)" for x
      by (simp add: fsStat_set)
    have "fsInv ?fs" using Cons.prems(1,2) None by (intro fsInv_set) auto
    from Cons.IH [OF this, of "k @ [c]"] Cons.prems(3) None st
    have "fsInv fs'" "fsStat fs' (k @ c # cs) = Some Dir"
      and *: "\<And>x. fsStat fs' x = (if x = k @ [c] then Some Dir else fsStat fs x)
         \<or> (if x = k @ [c] then Some Dir else fsStat fs x) = None \<and> fsStat fs' x = Some Dir
           \<and> (\<exists>ys. k @ c # cs = x @ ys)" by auto
    moreover have "fsStat fs' x = fsStat fs x
         \<or> fsStat fs x = None \<and> fsStat fs' x = Some Dir \<and> (\<exists>ys. k @ c # cs = x @ ys)" for x
      using * [of x] None by (cases "x = k @ [c]") auto
    ultimately show ?thesis by blast
  next
    case (Some n)
    with Cons.prems Cons.IH [OF Cons.prems(1), of "k @ [c]"] show ?thesis
      by (cases n) auto
  qed
qed

lemma fsMkdir_Inr:
  assumes "fsInv fs" and "fsMkdir p fs = Inr fs'"
  shows "fsInv fs'" "fsStat fs' (pathKey p) = Some Dir"
    "fsStat fs' x = fsStat fs x
      \<or> fsStat fs x = None \<and> fsStat fs' x = Some Dir \<and> (\<exists>ys. pathKey p = x @ ys)"
  using mkdirs_Inr [OF assms(1), of "[]" p "pathKey p" fs'] assms(2)
  by (auto simp: fsMkdir_def fsStat_def)

text \<open>A directory that is there already is left alone.\<close>

lemma fsInv_prefix:
  assumes "fsInv fs" and "fsStat fs (k @ cs) = Some Dir"
  shows "fsStat fs k = Some Dir"
  using assms(2)
proof (induction cs rule: rev_induct)
  case (snoc c cs)
  then show ?case using fsInv_parent [OF assms(1), of "k @ cs" c] by simp
qed simp

lemma mkdirs_present:
  assumes "fsInv fs" and "fsStat fs (k @ cs) = Some Dir"
  shows "mkdirs p k cs fs = Inr fs"
  using assms(2)
proof (induction cs arbitrary: k)
  case (Cons c cs)
  then show ?case using fsInv_prefix [OF assms(1), of "k @ [c]" cs] by simp
qed simp

lemma fsMkdir_present: "fsInv fs \<Longrightarrow> fsStat fs (pathKey p) = Some Dir \<Longrightarrow> fsMkdir p fs = Inr fs"
  by (simp add: fsMkdir_def mkdirs_present)

lemma fsMkdir_below:
  assumes "fsInv fs" and "fsMkdir p fs = Inr fs'"
  shows "fsStat fs' (pathKey p @ [c]) = fsStat fs (pathKey p @ [c])"
  using fsMkdir_Inr(3) [OF assms, of "pathKey p @ [c]"] by auto

lemma fsReadFile_Inr: "fsReadFile fs p = Inr b \<longleftrightarrow> fsStat fs (pathKey p) = Some (File b)"
  by (auto simp: fsReadFile_def split: option.splits node.splits)

lemma fsReadFile_stat:
  "fsReadFile fs p = fsReadFile fs' p \<Longrightarrow> fsStat fs (pathKey p) = fsStat fs' (pathKey p)"
  by (auto simp: fsReadFile_def fsError_def split: option.splits node.splits)

lemma fsReaddir_Inr:
  "fsReaddir fs p = Inr es \<longleftrightarrow> fsStat fs (pathKey p) = Some Dir \<and> es = fsEntries fs (pathKey p)"
  by (auto simp: fsReaddir_def split: option.splits node.splits)

lemma is_file_iff: "(\<exists>b. x = Some (File b)) \<longleftrightarrow> x \<noteq> None \<and> x \<noteq> Some Dir"
  by (cases x; cases "the x") auto

end
