(* ===== verification/Rt_Conf.thy ===== *)
theory Rt_Conf
  imports Rt_Strings
begin

text \<open>
  \<^verbatim>\<open>runtimes/ts/pkg/conf.ts\<close>: the settings the process reads from its environment when the
  module is loaded, and the format of a log line. The environment is a map from variable
  names to values. \<^verbatim>\<open>httpPort\<close> is an integer here and a double in the code; the two agree
  below \<open>2^53\<close>.
\<close>

type_synonym env = "string \<Rightarrow> string option"

record settings =
  project :: string
  natsURL :: string
  httpPort :: int
  vcsBaseURL :: string
  gitUser :: string
  gitToken :: string
  settingsName :: string

definition requiredEnv :: "env \<Rightarrow> string \<Rightarrow> js_error + string" where
  "requiredEnv env name =
     (case env name of
        None \<Rightarrow> Inl (JsError ''Error'' (name @ '' is required''))
      | Some value \<Rightarrow>
          if value = [] then Inl (JsError ''Error'' (name @ '' is required'')) else Inr value)"

text \<open>\<^verbatim>\<open>x ?? d\<close>: the default replaces an absent value only, not an empty one.\<close>

definition orElse :: "string option \<Rightarrow> string \<Rightarrow> string" where
  "orElse v d = (case v of None \<Rightarrow> d | Some x \<Rightarrow> x)"

text \<open>\<^verbatim>\<open>Number.parseInt(..) || 8080\<close>: \<^verbatim>\<open>NaN\<close> and \<open>0\<close> are falsy.\<close>

definition readPort :: "string option \<Rightarrow> int" where
  "readPort v =
     (case parseInt (orElse v ''8080'') of
        None \<Rightarrow> 8080
      | Some n \<Rightarrow> if n = 0 then 8080 else n)"

text \<open>\<^verbatim>\<open>.replace(/\/$/, "")\<close>: one trailing slash is dropped.\<close>

definition stripSlash :: "string \<Rightarrow> string" where
  "stripSlash s = (if endsWith s ''/'' then butlast s else s)"

definition loadSettings :: "env \<Rightarrow> js_error + settings" where
  "loadSettings env =
     (case requiredEnv env ''PROJECT'' of
        Inl e \<Rightarrow> Inl e
      | Inr p \<Rightarrow>
          (case requiredEnv env ''NATS_URL'' of
             Inl e \<Rightarrow> Inl e
           | Inr n \<Rightarrow>
               Inr \<lparr>project = p, natsURL = n,
                    httpPort = readPort (env ''HTTP_PORT''),
                    vcsBaseURL = stripSlash (orElse (env ''VCS_BASE_URL'') ''https://github.com''),
                    gitUser = orElse (env ''GIT_USER'') [],
                    gitToken = orElse (env ''GIT_TOKEN'') [],
                    settingsName = orElse (env ''NAME'') []\<rparr>))"

section \<open>Logging\<close>

type_synonym attrs = "(string \<times> string) list"

text \<open>What reaches the console, without its time stamp.\<close>

datatype log_entry = Info string attrs | Error string attrs | Fatal string js_error

definition logLine :: "string \<Rightarrow> string \<Rightarrow> attrs \<Rightarrow> string" where
  "logLine now msg attrs =
     (let parts = map (\<lambda>(k, v). k @ ''='' @ v) attrs
      in if length parts > 0 then now @ '' [INFO] '' @ msg @ '' '' @ join '' '' parts
         else now @ '' [INFO] '' @ msg)"

section \<open>What the settings guarantee\<close>


lemma requiredEnv_Inl:
  "requiredEnv env x = Inl e \<longleftrightarrow>
     (env x = None \<or> env x = Some []) \<and> e = JsError ''Error'' (x @ '' is required'')"
  by (auto simp: requiredEnv_def split: option.splits)




lemma stripSlash_cases: "s = stripSlash s \<or> s = stripSlash s @ ''/''"
  by (auto simp: stripSlash_def endsWith_iff)


text \<open>
  The settings load exactly when the two required variables are set to non-empty values;
  otherwise the error names the first one that is missing.
\<close>

theorem loadSettings_outcome:
  "(case loadSettings env of
      Inr cfg \<Rightarrow> env ''PROJECT'' = Some (project cfg) \<and> project cfg \<noteq> []
                \<and> env ''NATS_URL'' = Some (natsURL cfg) \<and> natsURL cfg \<noteq> []
    | Inl e \<Rightarrow> e = JsError ''Error''
                 ((if env ''PROJECT'' \<in> {None, Some []} then ''PROJECT'' else ''NATS_URL'')
                  @ '' is required'')
               \<and> (env ''PROJECT'' \<in> {None, Some []} \<or> env ''NATS_URL'' \<in> {None, Some []}))"
  by (auto simp: loadSettings_def requiredEnv_def split: option.splits)



end
