(* ===== verification/Rt_Dir.thy ===== *)
theory Rt_Dir
  imports Rt_Files Rt_Conf
begin

text \<open>
  The operating system as a part of the process state (files, console, spawned commands),
  the file operations as actions on it, and the contract of one directory that is being
  purged and refilled. The two loops of \<^verbatim>\<open>syncRuntimeFunctionsDir\<close> are verified once against
  that contract; the interpretation shows that a directory of the file table honours it.
\<close>

section \<open>The state and the actions on it\<close>

record os =
  files :: fs
  console :: "log_entry list"
  spawned :: "string list list"

definition logInfo :: "string \<Rightarrow> attrs \<Rightarrow> ('a os_scheme, unit) act" where
  "logInfo msg attrs = modify (\<lambda>s. s\<lparr>console := console s @ [Info msg attrs]\<rparr>)"

definition logError :: "string \<Rightarrow> attrs \<Rightarrow> ('a os_scheme, unit) act" where
  "logError msg attrs = modify (\<lambda>s. s\<lparr>console := console s @ [Error msg attrs]\<rparr>)"

definition onFiles :: "(fs \<Rightarrow> js_error + fs) \<Rightarrow> ('a os_scheme, unit) act" where
  "onFiles f s = (case f (files s) of Inl e \<Rightarrow> (Inl e, s) | Inr fs \<Rightarrow> (Inr (), s\<lparr>files := fs\<rparr>))"

definition fromFiles :: "(fs \<Rightarrow> js_error + 'b) \<Rightarrow> ('a os_scheme, 'b) act" where
  "fromFiles f = reads (\<lambda>s. f (files s))"

definition fileExists :: "string \<Rightarrow> ('a os_scheme, bool) act" where
  "fileExists p = gets (\<lambda>s. fsExists (files s) p)"

lemma fromFiles_simps [simp]: "fromFiles f s = (f (files s), s)"
  by (simp add: fromFiles_def reads_def)

lemma fileExists_simps [simp]: "fileExists p s = (Inr (fsExists (files s) p), s)"
  by (simp add: fileExists_def gets_def)

lemma onFiles_Inr: "onFiles f s = (Inr u, t) \<longleftrightarrow> (\<exists>fs. f (files s) = Inr fs \<and> t = s\<lparr>files := fs\<rparr>)"
  by (auto simp: onFiles_def split: sum.splits)

lemma onFiles_Inl: "onFiles f s = (Inl e, t) \<longleftrightarrow> f (files s) = Inl e \<and> t = s"
  by (auto simp: onFiles_def split: sum.splits)

text \<open>
  Predicates that do not look at the operating system's part of the state: the actions of
  this layer keep them, whatever state extends it.
\<close>

definition osBlind :: "('a os_scheme \<Rightarrow> bool) \<Rightarrow> bool" where
  "osBlind P \<longleftrightarrow> (\<forall>s f c g. P s \<longrightarrow> P (s\<lparr>files := f, console := c, spawned := g\<rparr>))"

lemma osBlindD:
  assumes "osBlind P" and "P s"
  shows "P (s\<lparr>files := f\<rparr>)" "P (s\<lparr>console := c\<rparr>)" "P (s\<lparr>files := f, spawned := g\<rparr>)"
proof -
  have "s\<lparr>files := f\<rparr> = s\<lparr>files := f, console := console s, spawned := spawned s\<rparr>"
    "s\<lparr>console := c\<rparr> = s\<lparr>files := files s, console := c, spawned := spawned s\<rparr>"
    "s\<lparr>files := f, spawned := g\<rparr> = s\<lparr>files := f, console := console s, spawned := g\<rparr>" by simp_all
  with assms show "P (s\<lparr>files := f\<rparr>)" "P (s\<lparr>console := c\<rparr>)" "P (s\<lparr>files := f, spawned := g\<rparr>)"
    unfolding osBlind_def by metis+
qed

lemma keeps_blind [keeps_rules]:
  assumes "osBlind P"
  shows "keeps P (onFiles f)" "keeps P (fromFiles h)" "keeps P (fileExists p)"
    "keeps P (logInfo m a)" "keeps P (logError m a)"
  using osBlindD [OF assms]
  by (auto simp: keeps_def onFiles_def logInfo_def logError_def modify_def split: sum.splits)

section \<open>The contract of a directory\<close>

locale dir_store =
  fixes entry :: "'s \<Rightarrow> string \<Rightarrow> node option"
    and remove :: "string \<Rightarrow> ('s, unit) act"
    and store :: "string \<Rightarrow> bytes \<Rightarrow> ('s, unit) act"
    and inv :: "'s \<Rightarrow> bool"
  assumes remove_ok: "inv s \<Longrightarrow> plainName n \<Longrightarrow> entry s n \<noteq> Some Dir \<Longrightarrow>
      \<exists>t. remove n s = (Inr (), t) \<and> inv t \<and> entry t = (entry s)(n := None)"
    and remove_dir: "inv s \<Longrightarrow> plainName n \<Longrightarrow> entry s n = Some Dir \<Longrightarrow>
      \<exists>e. remove n s = (Inl e, s)"
    and store_ok: "inv s \<Longrightarrow> plainName n \<Longrightarrow> entry s n \<noteq> Some Dir \<Longrightarrow>
      \<exists>t. store n b s = (Inr (), t) \<and> inv t \<and> entry t = (entry s)(n \<mapsto> File b)"
    and store_dir: "inv s \<Longrightarrow> plainName n \<Longrightarrow> entry s n = Some Dir \<Longrightarrow>
      \<exists>e. store n b s = (Inl e, s)"
begin

lemma remove_Inr:
  assumes "inv s" and "plainName n" and "remove n s = (Inr u, t)"
  shows "inv t" "entry t = (entry s)(n := None)" "entry s n \<noteq> Some Dir"
  using assms remove_ok [OF assms(1,2)] remove_dir [OF assms(1,2)]
  by (cases "entry s n = Some Dir"; force)+

lemma store_Inr:
  assumes "inv s" and "plainName n" and "store n b s = (Inr u, t)"
  shows "inv t" "entry t = (entry s)(n \<mapsto> File b)" "entry s n \<noteq> Some Dir"
  using assms store_ok [OF assms(1,2), of b] store_dir [OF assms(1,2), of b]
  by (cases "entry s n = Some Dir"; force)+

text \<open>The purge: every selected name that is listed is gone, the rest is untouched.\<close>

lemma purge_Inr:
  assumes "inv s" and sel: "\<forall>n. sel n \<longrightarrow> plainName n"
    and "forEach ns () (\<lambda>n _. if \<not> sel n then ret () else remove n) s = (Inr u, t)"
  shows "inv t \<and> entry t = (\<lambda>x. if x \<in> set ns \<and> sel x then None else entry s x)"
  using assms(1,3)
proof (induction ns arbitrary: s)
  case Nil
  then show ?case by (simp add: ret_def)
next
  case (Cons n ns)
  show ?case
  proof (cases "sel n")
    case False
    with Cons show ?thesis by (auto simp: fun_eq_iff)
  next
    case True
    with Cons.prems(2) obtain s' where s': "remove n s = (Inr (), s')"
      and rest: "forEach ns () (\<lambda>n _. if \<not> sel n then ret () else remove n) s' = (Inr u, t)"
      by (auto elim!: andThen_okE)
    note r = remove_Inr [OF Cons.prems(1) sel [rule_format, OF True] s']
    from Cons.IH [OF r(1) rest] r(2) True show ?thesis by (auto simp: fun_eq_iff)
  qed
qed

text \<open>It goes through exactly when no selected name is a directory.\<close>

lemma purge_total:
  assumes "inv s" and sel: "\<forall>n. sel n \<longrightarrow> plainName n"
  shows "(\<exists>u t. forEach ns () (\<lambda>n _. if \<not> sel n then ret () else remove n) s = (Inr u, t))
    \<longleftrightarrow> (\<forall>n \<in> set ns. sel n \<longrightarrow> entry s n \<noteq> Some Dir)"
  using assms(1)
proof (induction ns arbitrary: s)
  case Nil
  show ?case by (simp add: ret_def)
next
  case (Cons n ns)
  consider "\<not> sel n" | "sel n" "entry s n = Some Dir" | "sel n" "entry s n \<noteq> Some Dir" by blast
  then show ?case
  proof cases
    case 1
    with Cons show ?thesis by simp
  next
    case 2
    then obtain e where "remove n s = (Inl e, s)" using remove_dir [OF Cons.prems sel [rule_format]] by blast
    with 2 show ?thesis by (simp add: andThen_Inl)
  next
    case 3
    then obtain t where t: "remove n s = (Inr (), t)" "inv t" "entry t = (entry s)(n := None)"
      using remove_ok [OF Cons.prems sel [rule_format]] by blast
    with 3 Cons.IH [OF t(2)] show ?thesis by (auto simp: andThen_Inr)
  qed
qed

end

text \<open>A second directory whose files are copied over; working on the first leaves it alone.\<close>

locale dir_copy = dir_store +
  fixes source :: "'a \<Rightarrow> string \<Rightarrow> js_error + bytes"
  assumes source_remove: "inv s \<Longrightarrow> plainName n \<Longrightarrow> remove n s = (Inr u, t) \<Longrightarrow>
      plainName m \<Longrightarrow> source t m = source s m"
    and source_store: "inv s \<Longrightarrow> plainName n \<Longrightarrow> store n b s = (Inr u, t) \<Longrightarrow>
      plainName m \<Longrightarrow> source t m = source s m"
begin

lemma purge_source:
  assumes "inv s" and sel: "\<forall>n. sel n \<longrightarrow> plainName n" and m: "plainName m"
    and "forEach ns () (\<lambda>n _. if \<not> sel n then ret () else remove n) s = (Inr u, t)"
  shows "source t m = source s m"
  using assms(1,4)
proof (induction ns arbitrary: s)
  case Nil
  then show ?case by (simp add: ret_def)
next
  case (Cons n ns)
  show ?case
  proof (cases "sel n")
    case False
    with Cons show ?thesis by auto
  next
    case True
    with Cons.prems(2) obtain s' where s': "remove n s = (Inr (), s')"
      and rest: "forEach ns () (\<lambda>n _. if \<not> sel n then ret () else remove n) s' = (Inr u, t)"
      by (auto elim!: andThen_okE)
    from Cons.IH [OF remove_Inr(1) [OF Cons.prems(1) sel [rule_format, OF True] s'] rest]
      source_remove [OF Cons.prems(1) sel [rule_format, OF True] s' m] show ?thesis by simp
  qed
qed

lemma copy_Inr:
  assumes "inv s" and sel: "\<forall>n. sel n \<longrightarrow> plainName n"
    and "forEach ns k (\<lambda>n k. if \<not> sel n then ret k
           else andThen (reads (\<lambda>s. source s n)) (\<lambda>b. andThen (store n b) (\<lambda>_. ret (Suc k)))) s
         = (Inr m, t)"
  shows "inv t \<and> (\<forall>n. plainName n \<longrightarrow> source t n = source s n) \<and> m = k + length (filter sel ns)
    \<and> (\<forall>n \<in> set ns. sel n \<longrightarrow> (\<exists>b. source s n = Inr b))
    \<and> entry t = (\<lambda>x. if x \<in> set ns \<and> sel x then Some (File (projr (source s x))) else entry s x)"
  using assms(1,3)
proof (induction ns arbitrary: s k)
  case Nil
  then show ?case by (simp add: ret_def)
next
  case (Cons n ns)
  show ?case
  proof (cases "sel n")
    case False
    with Cons show ?thesis by (auto simp: fun_eq_iff)
  next
    case True
    with Cons.prems(2) obtain b s' where b: "source s n = Inr b" and s': "store n b s = (Inr (), s')"
      and rest: "forEach ns (Suc k) (\<lambda>n k. if \<not> sel n then ret k
           else andThen (reads (\<lambda>s. source s n)) (\<lambda>b. andThen (store n b) (\<lambda>_. ret (Suc k)))) s'
         = (Inr m, t)"
      by (auto elim!: andThen_okE simp: reads_def ret_def)
    note w = store_Inr [OF Cons.prems(1) sel [rule_format, OF True] s']
      and src = source_store [OF Cons.prems(1) sel [rule_format, OF True] s']
    have src': "source s' x = source s x" if "sel x" for x using src sel that by blast
    from Cons.IH [OF w(1) rest] w(2) b True show ?thesis by (auto simp: fun_eq_iff src src')
  qed
qed

lemma copy_total:
  assumes "inv s" and sel: "\<forall>n. sel n \<longrightarrow> plainName n"
  shows "(\<exists>m t. forEach ns k (\<lambda>n k. if \<not> sel n then ret k
           else andThen (reads (\<lambda>s. source s n)) (\<lambda>b. andThen (store n b) (\<lambda>_. ret (Suc k)))) s
         = (Inr m, t))
    \<longleftrightarrow> (\<forall>n \<in> set ns. sel n \<longrightarrow> (\<exists>b. source s n = Inr b) \<and> entry s n \<noteq> Some Dir)"
  using assms(1)
proof (induction ns arbitrary: s k)
  case Nil
  show ?case by (simp add: ret_def)
next
  case (Cons n ns)
  show ?case
  proof (cases "sel n")
    case False
    with Cons show ?thesis by simp
  next
    case True
    show ?thesis
    proof (cases "source s n")
      case (Inl e)
      with True show ?thesis by (simp add: andThen_Inl reads_def)
    next
      case b: (Inr b)
      show ?thesis
      proof (cases "entry s n = Some Dir")
        case dir: True
        then obtain e where "store n b s = (Inl e, s)"
          using store_dir [OF Cons.prems sel [rule_format, OF True]] by blast
        with True b dir show ?thesis by (simp add: andThen_def reads_def)
      next
        case False
        then obtain t where t: "store n b s = (Inr (), t)" "inv t" "entry t = (entry s)(n \<mapsto> File b)"
          using store_ok [OF Cons.prems sel [rule_format, OF True]] by blast
        have src: "source t x = source s x" if "sel x" for x
          using source_store [OF Cons.prems sel [rule_format, OF True] t(1)] sel that by blast
        from True b False t Cons.IH [OF t(2), of "Suc k"] show ?thesis
          by (auto simp: andThen_def reads_def ret_def src)
      qed
    qed
  qed
qed

end

section \<open>A directory of the file table\<close>

text \<open>The directory at \<open>root\<close>, and the directory at \<open>src\<close> its files are copied from.\<close>

definition dirEntry :: "string \<Rightarrow> 'a os_scheme \<Rightarrow> string \<Rightarrow> node option" where
  "dirEntry root s n = fsStat (files s) (pathKey root @ [n])"

definition dirReady :: "string \<Rightarrow> string \<Rightarrow> 'a os_scheme \<Rightarrow> bool" where
  "dirReady root src s \<longleftrightarrow> canonical root \<and> canonical src \<and> pathKey root \<noteq> pathKey src
     \<and> fsInv (files s) \<and> fsStat (files s) (pathKey root) = Some Dir"

lemma dirReady_rm:
  assumes "dirReady root src s" and "plainName n" and "dirEntry root s n \<noteq> Some Dir"
  shows "\<exists>t. onFiles (fsRmForce (pathJoin [root, n])) s = (Inr (), t)
    \<and> dirReady root src t \<and> dirEntry root t = (dirEntry root s)(n := None)"
proof -
  have key: "pathKey (pathJoin [root, n]) = pathKey root @ [n]"
    using assms by (simp add: dirReady_def path_simps)
  obtain f where f: "fsRmForce (pathJoin [root, n]) (files s) = Inr f"
    using fsRmForce_total [of "files s" "pathJoin [root, n]"] assms(3) by (auto simp: key dirEntry_def)
  have "fsInv f" using fsInv_rm f assms(1) by (auto simp: dirReady_def)
  moreover have st: "fsStat f x = (if x = pathKey root @ [n] then None else fsStat (files s) x)" for x
    using fsRmForce_Inr(2) [OF f] by (simp add: key)
  ultimately show ?thesis
    using assms(1) f by (auto simp: onFiles_def dirReady_def dirEntry_def fun_eq_iff)
qed

lemma dirReady_store:
  assumes "dirReady root src s" and "plainName n" and "dirEntry root s n \<noteq> Some Dir"
  shows "\<exists>t. onFiles (fsWriteFile (pathJoin [root, n]) b) s = (Inr (), t)
    \<and> dirReady root src t \<and> dirEntry root t = (dirEntry root s)(n \<mapsto> File b)"
proof -
  have key: "pathKey (pathJoin [root, n]) = pathKey root @ [n]"
    using assms by (simp add: dirReady_def path_simps)
  let ?f = "mapSet (pathKey root @ [n]) (File b) (files s)"
  have f: "fsWriteFile (pathJoin [root, n]) b (files s) = Inr ?f"
    using assms by (simp add: fsWriteFile_def key dirEntry_def dirReady_def)
  have "fsInv ?f" using fsInv_write f assms(1) by (auto simp: dirReady_def)
  then show ?thesis
    using assms(1) f by (auto simp: onFiles_def dirReady_def dirEntry_def fsStat_set fun_eq_iff)
qed

lemma onFiles_source:
  assumes "dirReady root src s" and "plainName n" and "plainName m"
    and "onFiles f s = (Inr u, t)"
    and "\<And>x fs. f (files s) = Inr fs \<Longrightarrow> x \<noteq> pathKey root @ [n] \<Longrightarrow> fsStat fs x = fsStat (files s) x"
  shows "fsReadFile (files t) (pathJoin [src, m]) = fsReadFile (files s) (pathJoin [src, m])"
proof -
  obtain fs where fs: "f (files s) = Inr fs" "files t = fs" using assms(4) by (auto simp: onFiles_Inr)
  have "pathKey (pathJoin [src, m]) = pathKey src @ [m]" "pathKey src @ [m] \<noteq> pathKey root @ [n]"
    using assms(1,3) by (auto simp: dirReady_def path_simps)
  with assms(5) [OF fs(1)] show ?thesis by (simp add: fsReadFile_def fs(2))
qed

interpretation rtdir: dir_copy
    "dirEntry root" "\<lambda>n. onFiles (fsRmForce (pathJoin [root, n]))"
    "\<lambda>n b. onFiles (fsWriteFile (pathJoin [root, n]) b)" "dirReady root src"
    "\<lambda>s n. fsReadFile (files s) (pathJoin [src, n])"
  for root src
proof
  fix s :: "'a os_scheme" and n b
  assume s: "dirReady root src s" and n: "plainName n"
  have key: "pathKey (pathJoin [root, n]) = pathKey root @ [n]"
    using s n by (simp add: dirReady_def path_simps)
  show "\<exists>t. onFiles (fsRmForce (pathJoin [root, n])) s = (Inr (), t)
      \<and> dirReady root src t \<and> dirEntry root t = (dirEntry root s)(n := None)"
    if "dirEntry root s n \<noteq> Some Dir" using dirReady_rm [OF s n that] .
  show "\<exists>t. onFiles (fsWriteFile (pathJoin [root, n]) b) s = (Inr (), t)
      \<and> dirReady root src t \<and> dirEntry root t = (dirEntry root s)(n \<mapsto> File b)"
    if "dirEntry root s n \<noteq> Some Dir" using dirReady_store [OF s n that] .
  show "\<exists>e. onFiles (fsRmForce (pathJoin [root, n])) s = (Inl e, s)"
    if "dirEntry root s n = Some Dir"
    using that by (simp add: onFiles_def fsRmForce_def key dirEntry_def)
  show "\<exists>e. onFiles (fsWriteFile (pathJoin [root, n]) b) s = (Inl e, s)"
    if "dirEntry root s n = Some Dir"
    using that by (simp add: onFiles_def fsWriteFile_def key dirEntry_def)
  fix u t m
  assume m: "plainName m"
  show "fsReadFile (files t) (pathJoin [src, m]) = fsReadFile (files s) (pathJoin [src, m])"
    if "onFiles (fsRmForce (pathJoin [root, n])) s = (Inr u, t)"
    by (rule onFiles_source [OF s n m that]) (use fsRmForce_Inr(2) key in auto)
  show "fsReadFile (files t) (pathJoin [src, m]) = fsReadFile (files s) (pathJoin [src, m])"
    if "onFiles (fsWriteFile (pathJoin [root, n]) b) s = (Inr u, t)"
    by (rule onFiles_source [OF s n m that]) (use fsWriteFile_stat key in auto)
qed

end
