(* ===== verification/Rt_Text.thy ===== *)
theory Rt_Text
  imports Rt_Strings
begin

text \<open>
  Text and bytes: \<^verbatim>\<open>TextEncoder\<close> and \<^verbatim>\<open>TextDecoder\<close> (UTF-8 with replacement of malformed
  sequences), \<^verbatim>\<open>encodeURIComponent\<close>, and \<^verbatim>\<open>encodeGitPart\<close> of
  \<^verbatim>\<open>runtimes/ts/pkg/functions.ts\<close>. Since a string is its UTF-8 form, encoding only changes
  the type of its bytes; decoding repairs what is not well-formed and drops a byte order mark.
\<close>

section \<open>TextEncoder and TextDecoder\<close>

definition textEncode :: "string \<Rightarrow> bytes" where
  "textEncode s = map (\<lambda>c. word_of_nat (of_char c)) s"

definition byteChar :: "8 word \<Rightarrow> char" where
  "byteChar b = char_of (unat b)"

text \<open>
  For a lead byte of a sequence of several bytes: how many continuation bytes follow, and the
  range of the first of them (which rules out overlong forms, surrogates and values beyond
  the last code point).
\<close>

definition leadByte :: "nat \<Rightarrow> (nat \<times> nat \<times> nat) option" where
  "leadByte b =
     (if 0xC2 \<le> b \<and> b \<le> 0xDF then Some (1, 0x80, 0xBF)
      else if b = 0xE0 then Some (2, 0xA0, 0xBF)
      else if b = 0xED then Some (2, 0x80, 0x9F)
      else if 0xE1 \<le> b \<and> b \<le> 0xEF then Some (2, 0x80, 0xBF)
      else if b = 0xF0 then Some (3, 0x90, 0xBF)
      else if b = 0xF4 then Some (3, 0x80, 0x8F)
      else if 0xF1 \<le> b \<and> b \<le> 0xF3 then Some (3, 0x80, 0xBF)
      else None)"

text \<open>The continuation bytes present, whether they are complete, and what comes after them.\<close>

fun takeConts :: "nat \<Rightarrow> nat \<Rightarrow> nat \<Rightarrow> nat list \<Rightarrow> bool \<times> nat list \<times> nat list" where
  "takeConts 0 lo hi bs = (True, [], bs)"
| "takeConts (Suc k) lo hi [] = (False, [], [])"
| "takeConts (Suc k) lo hi (b # bs) =
     (if lo \<le> b \<and> b \<le> hi
      then (case takeConts k 0x80 0xBF bs of (ok, t, r) \<Rightarrow> (ok, b # t, r))
      else (False, [], b # bs))"

lemma takeConts_split: "takeConts k lo hi bs = (ok, t, r) \<Longrightarrow> bs = t @ r"
  by (induction k lo hi bs arbitrary: ok t r rule: takeConts.induct)
    (auto split: if_splits prod.splits)

text \<open>The replacement character U+FFFD, in UTF-8.\<close>

definition replacement :: "nat list" where
  "replacement = [0xEF, 0xBF, 0xBD]"

function utf8Repair :: "nat list \<Rightarrow> nat list" where
  "utf8Repair [] = []"
| "utf8Repair (b # bs) =
     (if b < 0x80 then b # utf8Repair bs
      else (case leadByte b of
              None \<Rightarrow> replacement @ utf8Repair bs
            | Some (n, lo, hi) \<Rightarrow>
                (case takeConts n lo hi bs of
                   (ok, t, r) \<Rightarrow> (if ok then b # t else replacement) @ utf8Repair r)))"
  by pat_completeness auto
termination
  by (relation "measure length") (auto dest!: takeConts_split [OF sym])

definition dropBom :: "nat list \<Rightarrow> nat list" where
  "dropBom bs = (if take 3 bs = [0xEF, 0xBB, 0xBF] then drop 3 bs else bs)"

definition textDecode :: "bytes \<Rightarrow> string" where
  "textDecode bs = map char_of (utf8Repair (dropBom (map unat bs)))"

text \<open>Well-formed UTF-8: every lead byte is followed by exactly its continuation bytes.\<close>

function utf8Valid :: "nat list \<Rightarrow> bool" where
  "utf8Valid [] = True"
| "utf8Valid (b # bs) =
     (if b < 0x80 then utf8Valid bs
      else (case leadByte b of
              None \<Rightarrow> False
            | Some (n, lo, hi) \<Rightarrow>
                (case takeConts n lo hi bs of (ok, t, r) \<Rightarrow> ok \<and> utf8Valid r)))"
  by pat_completeness auto
termination
  by (relation "measure length") (auto dest!: takeConts_split [OF sym])

definition wellFormed :: "string \<Rightarrow> bool" where
  "wellFormed s = utf8Valid (map of_char s)"

definition startsWithBom :: "string \<Rightarrow> bool" where
  "startsWithBom s = startsWith s [CHR 0xEF, CHR 0xBB, CHR 0xBF]"

lemma utf8Repair_valid: "utf8Valid bs \<Longrightarrow> utf8Repair bs = bs"
proof (induction bs rule: utf8Valid.induct)
  case 1
  show ?case by simp
next
  case (2 b bs)
  show ?case
  proof (cases "b < 0x80")
    case True
    with 2 show ?thesis by simp
  next
    case False
    with "2.prems" obtain n lo hi t r where
      lead: "leadByte b = Some (n, lo, hi)" and conts: "takeConts n lo hi bs = (True, t, r)"
      and r: "utf8Valid r"
      by (auto split: option.splits prod.splits)
    from "2.IH"(2) [OF False lead refl refl conts [symmetric] refl] r have "utf8Repair r = r" by simp
    with False lead conts takeConts_split [OF conts] show ?thesis by simp
  qed
qed

lemma takeConts_complete:
  "takeConts k lo hi bs = (True, t, r) \<Longrightarrow> takeConts k lo hi (t @ r') = (True, t, r')"
  by (induction k lo hi bs arbitrary: t r rule: takeConts.induct)
    (auto split: if_splits prod.splits)

lemma utf8Valid_replacement: "utf8Valid (replacement @ bs) = utf8Valid bs"
  by (simp add: replacement_def leadByte_def numeral_eq_Suc)

lemma utf8Valid_repair: "utf8Valid (utf8Repair bs)"
proof (induction bs rule: utf8Repair.induct)
  case 1
  show ?case by simp
next
  case (2 b bs)
  show ?case
  proof (cases "b < 0x80")
    case True
    with 2 show ?thesis by simp
  next
    case b: False
    show ?thesis
    proof (cases "leadByte b")
      case None
      with b 2 show ?thesis by (simp add: utf8Valid_replacement)
    next
      case (Some p)
      obtain n lo hi where lead: "leadByte b = Some (n, lo, hi)" using Some by (cases p) auto
      obtain ok t r where conts: "takeConts n lo hi bs = (ok, t, r)" by (cases "takeConts n lo hi bs")
      from "2.IH"(3) [OF b lead refl refl conts [symmetric] refl] have "utf8Valid (utf8Repair r)" .
      with b lead conts show ?thesis
        by (cases ok) (simp_all add: utf8Valid_replacement takeConts_complete)
    qed
  qed
qed

lemma unat_textEncode: "map unat (textEncode s) = map of_char s"
  by (simp add: textEncode_def unat_of_nat of_char_mod_256 comp_def)

lemma length_textEncode [simp]: "length (textEncode s) = length s"
  by (simp add: textEncode_def)

lemma textEncode_append: "textEncode (s @ t) = textEncode s @ textEncode t"
  by (simp add: textEncode_def)

lemma map_char_of_of_char: "map char_of (map of_char s :: nat list) = s"
  by (simp add: comp_def)

text \<open>Decoding what was encoded gives the text back, unless it starts with a byte order mark.\<close>

lemma dropBom_none: "\<not> startsWithBom s \<Longrightarrow> dropBom (map of_char s) = map of_char s"
proof -
  assume "\<not> startsWithBom s"
  moreover have "take 3 s = [CHR 0xEF, CHR 0xBB, CHR 0xBF]"
    if "take 3 (map of_char s) = [0xEF, 0xBB, 0xBF :: nat]"
  proof -
    have "map of_char (take 3 s) = (map of_char [CHR 0xEF, CHR 0xBB, CHR 0xBF] :: nat list)"
      using that by (simp add: take_map)
    then show ?thesis by (metis map_char_of_of_char)
  qed
  ultimately show ?thesis
    by (auto simp: dropBom_def startsWithBom_def startsWith_def numeral_3_eq_3)
qed

lemma textDecode_encode:
  assumes "wellFormed s" and "\<not> startsWithBom s"
  shows "textDecode (textEncode s) = s"
proof -
  have "dropBom (map unat (textEncode s)) = map of_char s"
    by (simp only: unat_textEncode dropBom_none [OF assms(2)])
  moreover have "utf8Repair (map of_char s) = map of_char s"
    using assms(1) by (simp add: wellFormed_def utf8Repair_valid)
  ultimately show ?thesis by (simp add: textDecode_def comp_def)
qed

lemma ascii_wellFormed: "\<forall>c \<in> set s. of_char c < (128 :: nat) \<Longrightarrow> wellFormed s"
  unfolding wellFormed_def by (induction s) auto

section \<open>encodeURIComponent and encodeGitPart\<close>

definition uriUnreserved :: "char \<Rightarrow> bool" where
  "uriUnreserved c =
     (let n = (of_char c :: nat) in
       (65 \<le> n \<and> n \<le> 90) \<or> (97 \<le> n \<and> n \<le> 122) \<or> (48 \<le> n \<and> n \<le> 57)
       \<or> c \<in> set [CHR ''-'', CHR ''_'', CHR ''.'', CHR ''!'', CHR ''~'', CHR ''*'', CHR 0x27,
                  CHR ''('', CHR '')''])"

definition hexDigit :: "nat \<Rightarrow> char" where
  "hexDigit d = ''0123456789ABCDEF'' ! d"

definition pctEncode :: "char \<Rightarrow> string" where
  "pctEncode c = [CHR ''%'', hexDigit (of_char c div 16), hexDigit (of_char c mod 16)]"

definition encodeURIComponent :: "string \<Rightarrow> string" where
  "encodeURIComponent s = concat (map (\<lambda>c. if uriUnreserved c then [c] else pctEncode c) s)"

text \<open>\<^verbatim>\<open>.replace(/%40/g, "@")\<close>\<close>

fun unescapeAt :: "string \<Rightarrow> string" where
  "unescapeAt [] = []"
| "unescapeAt (c # s) =
     (if startsWith (c # s) ''%40'' then CHR ''@'' # unescapeAt (drop 2 s)
      else c # unescapeAt s)"

definition encodeGitPart :: "string \<Rightarrow> string" where
  "encodeGitPart value = unescapeAt (encodeURIComponent value)"

text \<open>Reading a percent-encoded text back, as the receiver of the URL does.\<close>

definition hexValue :: "char \<Rightarrow> nat" where
  "hexValue c =
     (let n = of_char c in if n \<le> 57 then n - 48 else if n \<le> 70 then n - 55 else n - 87)"

fun pctDecode :: "string \<Rightarrow> string" where
  "pctDecode (c # h # l # s) =
     (if c = CHR ''%'' then char_of (16 * hexValue h + hexValue l) # pctDecode s
      else c # pctDecode (h # l # s))"
| "pctDecode s = s"

text \<open>The set of characters \<^const>\<open>encodeGitPart\<close> leaves as they are.\<close>

definition gitPartChar :: "char \<Rightarrow> bool" where
  "gitPartChar c = (uriUnreserved c \<or> c = CHR ''@'')"

lemma below_16: "d < 16 \<Longrightarrow> d \<in> {0, 1, 2, 3, 4, 5, 6, 7, 8, 9, 10, 11, 12, 13, 14, 15 :: nat}"
  by (simp, presburger)

lemma hexDigit_facts:
  "\<forall>d \<in> {0, 1, 2, 3, 4, 5, 6, 7, 8, 9, 10, 11, 12, 13, 14, 15}.
     hexDigit d \<noteq> CHR ''%'' \<and> hexValue (hexDigit d) = d \<and> uriUnreserved (hexDigit d)"
  by (simp add: hexDigit_def hexValue_def uriUnreserved_def)

lemma hexDigit_simps:
  assumes "d < 16"
  shows "hexDigit d \<noteq> CHR ''%''" "hexValue (hexDigit d) = d" "uriUnreserved (hexDigit d)"
  using bspec [OF hexDigit_facts below_16 [OF assms]] by simp_all

lemma of_char_lt: "(of_char c :: nat) < 256"
  by (metis nat_of_char_less_256)

lemma of_char_nibbles:
  "(of_char c :: nat) div 16 < 16" "(of_char c :: nat) mod 16 < 16"
  using of_char_lt [of c] by (simp_all add: less_mult_imp_div_less)

lemma hexValue_inject: "d < 16 \<Longrightarrow> hexDigit d = h \<Longrightarrow> d = hexValue h"
  using hexDigit_simps(2) by metis

lemma pctEncode_at: "pctEncode c = ''%40'' \<longleftrightarrow> c = CHR ''@''"
proof
  assume "pctEncode c = ''%40''"
  then have "hexDigit (of_char c div 16) = CHR ''4''" "hexDigit (of_char c mod 16) = CHR ''0''"
    by (simp_all add: pctEncode_def)
  from hexValue_inject [OF of_char_nibbles(1) this(1)] hexValue_inject [OF of_char_nibbles(2) this(2)]
  have "(of_char c :: nat) div 16 = 4" "(of_char c :: nat) mod 16 = 0"
    by (simp_all add: hexValue_def)
  then have "(of_char c :: nat) = 16 * 4 + 0" by (metis mult_div_mod_eq)
  then have "of_char c = (of_char CHR ''@'' :: nat)" by simp
  then show "c = CHR ''@''" by (simp only: of_char_eq_iff)
next
  assume "c = CHR ''@''"
  then show "pctEncode c = ''%40''" by (simp add: pctEncode_def hexDigit_def)
qed

lemma pctEncode_decode: "pctDecode (pctEncode c @ s) = c # pctDecode s"
proof -
  have "16 * ((of_char c :: nat) div 16) + (of_char c :: nat) mod 16 = of_char c" by presburger
  then have "char_of (16 * ((of_char c :: nat) div 16) + (of_char c :: nat) mod 16) = c"
    by simp
  then show ?thesis
    by (simp add: pctEncode_def hexDigit_simps of_char_nibbles)
qed

lemma pctDecode_Cons: "c \<noteq> CHR ''%'' \<Longrightarrow> pctDecode (c # s) = c # pctDecode s"
  by (cases s; cases "tl s") auto

lemma unescapeAt_Cons: "c \<noteq> CHR ''%'' \<Longrightarrow> unescapeAt (c # s) = c # unescapeAt s"
  by (simp add: startsWith_def)

declare unescapeAt.simps(2) [simp del]

lemma unescapeAt_pct:
  "unescapeAt (pctEncode c @ s) = (if c = CHR ''@'' then [c] else pctEncode c) @ unescapeAt s"
proof (cases "c = CHR ''@''")
  case True
  then have "pctEncode c = ''%40''" by (simp only: pctEncode_at)
  with True show ?thesis by (simp add: unescapeAt.simps(2) startsWith_def)
next
  case False
  then have "pctEncode c \<noteq> ''%40''" by (simp only: pctEncode_at) simp
  then have "\<not> startsWith (pctEncode c @ s) ''%40''"
    by (simp add: pctEncode_def startsWith_def)
  with False show ?thesis
    by (simp add: pctEncode_def unescapeAt.simps(2) [of "CHR ''%''"] unescapeAt_Cons
        hexDigit_simps of_char_nibbles)
qed

lemma uriUnreserved_chars: "\<not> uriUnreserved CHR ''%''" "\<not> uriUnreserved CHR ''@''"
  "\<not> uriUnreserved CHR '':''" "\<not> uriUnreserved CHR ''/''"
  by (simp_all add: uriUnreserved_def)

text \<open>The encoding is \<^verbatim>\<open>encodeURIComponent\<close> with \<^verbatim>\<open>@\<close> left as it is.\<close>

lemma encodeGitPart_eq:
  "encodeGitPart s = concat (map (\<lambda>c. if gitPartChar c then [c] else pctEncode c) s)"
proof (induction s)
  case Nil
  show ?case by (simp add: encodeGitPart_def encodeURIComponent_def)
next
  case (Cons c s)
  show ?case
  proof (cases "uriUnreserved c")
    case True
    then have "c \<noteq> CHR ''%''" using uriUnreserved_chars by auto
    with True Cons show ?thesis
      by (simp add: encodeGitPart_def encodeURIComponent_def gitPartChar_def unescapeAt_Cons)
  next
    case False
    with Cons show ?thesis
      by (simp add: encodeGitPart_def encodeURIComponent_def gitPartChar_def unescapeAt_pct)
  qed
qed

lemma pctDecode_with:
  assumes "\<not> keep CHR ''%''"
  shows "pctDecode (concat (map (\<lambda>c. if keep c then [c] else pctEncode c) s)) = s"
proof (induction s)
  case Nil
  show ?case by simp
next
  case (Cons c s)
  have "c \<noteq> CHR ''%''" if "keep c" using that assms by auto
  with Cons show ?case by (simp add: pctEncode_decode pctDecode_Cons)
qed

lemma encodeGitPart_decode: "pctDecode (encodeGitPart s) = s"
  unfolding encodeGitPart_eq
  by (rule pctDecode_with) (simp add: gitPartChar_def uriUnreserved_chars)

lemma encodeGitPart_inject: "encodeGitPart s = encodeGitPart t \<longleftrightarrow> s = t"
  by (metis encodeGitPart_decode)

lemma pctEncode_chars: "d \<in> set (pctEncode c) \<Longrightarrow> d = CHR ''%'' \<or> uriUnreserved d"
  using hexDigit_simps(3) [OF of_char_nibbles(1)] hexDigit_simps(3) [OF of_char_nibbles(2)]
  by (auto simp: pctEncode_def)

lemma encodeGitPart_chars:
  assumes "d \<in> set (encodeGitPart s)"
  shows "d = CHR ''%'' \<or> gitPartChar d"
proof -
  from assms obtain c where "d \<in> set (if gitPartChar c then [c] else pctEncode c)"
    unfolding encodeGitPart_eq set_concat set_map by blast
  then show ?thesis
    by (cases "gitPartChar c") (auto simp: gitPartChar_def dest: pctEncode_chars)
qed

lemma gitPartChar_delimiters: "\<not> gitPartChar CHR ''/''" "\<not> gitPartChar CHR '':''"
  by (simp_all only: gitPartChar_def uriUnreserved_chars) simp_all

lemma encodeGitPart_delimiters:
  "CHR ''/'' \<notin> set (encodeGitPart s)" "CHR '':'' \<notin> set (encodeGitPart s)"
  using encodeGitPart_chars [of "CHR ''/''" s] encodeGitPart_chars [of "CHR '':''" s]
    gitPartChar_delimiters by auto

end
