(* ===== verification/Rt_Value.thy ===== *)
theory Rt_Value
  imports Rt_Text
begin

text \<open>
  What a user's function and the runtime exchange: JavaScript values as far as
  \<^verbatim>\<open>runtimes/ts/pkg/functions.ts\<close> tells them apart, \<^verbatim>\<open>JSON.stringify\<close>, the request
  objects, and \<^verbatim>\<open>asBytes\<close>, which turns a value into the bytes that are sent.
  A value is a tree (a cyclic object is not represented). The properties of an object are
  its own enumerable ones in enumeration order, as \<^verbatim>\<open>JSON.stringify\<close> visits them.
\<close>

section \<open>Numbers\<close>

text \<open>
  A finite number is given by its sign, its shortest decimal digits \<open>s\<close> (none for zero)
  and the exponent \<open>n\<close>, standing for \<open>0.s * 10^n\<close>: the data from which the language
  builds the text of a number.
\<close>

datatype jsnum = Finite bool string int | NaN | Infinite bool

definition exponentText :: "int \<Rightarrow> string" where
  "exponentText e = CHR ''e'' # (if e < 0 then CHR ''-'' else CHR ''+'') # showNat (nat \<bar>e\<bar>)"

definition digitsText :: "string \<Rightarrow> int \<Rightarrow> string" where
  "digitsText s n =
     (let k = int (length s) in
      if s = [] then ''0''
      else if k \<le> n \<and> n \<le> 21 then s @ replicate (nat (n - k)) CHR ''0''
      else if 0 < n \<and> n \<le> 21 then take (nat n) s @ ''.'' @ drop (nat n) s
      else if - 6 < n \<and> n \<le> 0 then ''0.'' @ replicate (nat (- n)) CHR ''0'' @ s
      else if k = 1 then s @ exponentText (n - 1)
      else take 1 s @ ''.'' @ drop 1 s @ exponentText (n - 1))"

fun numberText :: "jsnum \<Rightarrow> string" where
  "numberText (Finite neg s n) = (if neg \<and> s \<noteq> [] then [CHR ''-''] else []) @ digitsText s n"
| "numberText NaN = ''NaN''"
| "numberText (Infinite neg) = (if neg then ''-Infinity'' else ''Infinity'')"

definition dropZeros :: "string \<Rightarrow> string" where
  "dropZeros s = rev (dropWhile (\<lambda>c. c = CHR ''0'') (rev s))"

definition numOfNat :: "nat \<Rightarrow> jsnum" where
  "numOfNat m =
     (if m = 0 then Finite False [] 0
      else Finite False (dropZeros (showNat m)) (int (length (showNat m))))"

section \<open>Values and iterators\<close>

text \<open>
  What an iterator has done when it is observed: yielded values, and then finished, thrown,
  or not answered (yet). An endless stream is covered by its finite beginnings, which end in
  \<open>Stuck\<close>.
\<close>

datatype 'a gen = Done | Fail js_error | Stuck | Yield 'a "'a gen"

datatype 'a settled = Resolved 'a | Rejected js_error | Pending

datatype jsval =
    JUndefined
  | JNull
  | JBool bool
  | JNum jsnum
  | JBigInt int
  | JSymbol
  | JFunction
  | JString string
  | JUint8Array bytes
  | JArrayBuffer bytes
  | JResponse bytes bool  \<comment> \<open>its body, and whether the body has been read already\<close>
  | JArray "jsval list"
  | JObject "(string \<times> jsval) list" "jsval gen option" "jsval gen option"
      \<comment> \<open>properties, what \<^verbatim>\<open>[Symbol.iterator]\<close> and \<^verbatim>\<open>[Symbol.asyncIterator]\<close> give, if functions\<close>

fun genOfList :: "'a list \<Rightarrow> 'a gen" where
  "genOfList [] = Done"
| "genOfList (x # xs) = Yield x (genOfList xs)"

fun yields :: "'a gen \<Rightarrow> 'a list" where
  "yields (Yield x g) = x # yields g"
| "yields _ = []"

text \<open>A string iterates over its code points, each a lead byte with its continuation bytes.\<close>

definition contByte :: "char \<Rightarrow> bool" where
  "contByte c = (let n = (of_char c :: nat) in 128 \<le> n \<and> n < 192)"

function codePoints :: "string \<Rightarrow> string list" where
  "codePoints [] = []"
| "codePoints (c # cs) = (c # takeWhile contByte cs) # codePoints (dropWhile contByte cs)"
  by pat_completeness auto
termination
  by (relation "measure length") (auto simp: less_Suc_eq_le length_dropWhile_le)

text \<open>\<^verbatim>\<open>v[Symbol.iterator]\<close> and \<^verbatim>\<open>v[Symbol.asyncIterator]\<close>, where they are functions.\<close>

fun syncIterator :: "jsval \<Rightarrow> jsval gen option" where
  "syncIterator (JString s) = Some (genOfList (map JString (codePoints s)))"
| "syncIterator (JUint8Array b) = Some (genOfList (map (\<lambda>x. JNum (numOfNat (unat x))) b))"
| "syncIterator (JArray vs) = Some (genOfList vs)"
| "syncIterator (JObject ps it ait) = it"
| "syncIterator _ = None"

fun asyncIterator :: "jsval \<Rightarrow> jsval gen option" where
  "asyncIterator (JObject ps it ait) = ait"
| "asyncIterator _ = None"

section \<open>JSON.stringify\<close>

definition hexLower :: "nat \<Rightarrow> char" where
  "hexLower d = ''0123456789abcdef'' ! d"

definition quoteChar :: "char \<Rightarrow> string" where
  "quoteChar c =
     (let n = (of_char c :: nat); esc = (\<lambda>x. [CHR 0x5C, x]) in
      if n = 8 then esc CHR ''b''
      else if n = 9 then esc CHR ''t''
      else if n = 10 then esc CHR ''n''
      else if n = 12 then esc CHR ''f''
      else if n = 13 then esc CHR ''r''
      else if n = 34 \<or> n = 92 then esc c
      else if n < 32 then [CHR 0x5C, CHR ''u'', CHR ''0'', CHR ''0'',
                           hexLower (n div 16), hexLower (n mod 16)]
      else [c])"

definition quoteJSON :: "string \<Rightarrow> string" where
  "quoteJSON s = CHR 0x22 # concat (map quoteChar s) @ [CHR 0x22]"

definition bigIntError :: js_error where
  "bigIntError = JsError ''TypeError'' ''JSON.stringify cannot serialize BigInt.''"

definition jsonIndexed :: "bytes \<Rightarrow> string" where
  "jsonIndexed b =
     ''{'' @ join '','' (map (\<lambda>(i, x). quoteJSON (showNat i) @ '':'' @ showNat (unat x))
                      (zip [0..<length b] b)) @ ''}''"

text \<open>\<^verbatim>\<open>undefined\<close>, a symbol and a function have no JSON text: \<^const>\<open>None\<close>.\<close>

fun jsonText :: "jsval \<Rightarrow> js_error + string option"
  and jsonElems :: "jsval list \<Rightarrow> js_error + string list"
  and jsonProps :: "(string \<times> jsval) list \<Rightarrow> js_error + string list"
where
  "jsonText JUndefined = Inr None"
| "jsonText JSymbol = Inr None"
| "jsonText JFunction = Inr None"
| "jsonText JNull = Inr (Some ''null'')"
| "jsonText (JBool b) = Inr (Some (if b then ''true'' else ''false''))"
| "jsonText (JNum n) =
     Inr (Some (case n of Finite _ _ _ \<Rightarrow> numberText n | _ \<Rightarrow> ''null''))"
| "jsonText (JBigInt i) = Inl bigIntError"
| "jsonText (JString s) = Inr (Some (quoteJSON s))"
| "jsonText (JUint8Array b) = Inr (Some (jsonIndexed b))"
| "jsonText (JArrayBuffer b) = Inr (Some ''{}'')"
| "jsonText (JResponse b u) = Inr (Some ''{}'')"
| "jsonText (JArray vs) =
     (case jsonElems vs of Inl e \<Rightarrow> Inl e | Inr ts \<Rightarrow> Inr (Some (''['' @ join '','' ts @ '']'')))"
| "jsonText (JObject ps it ait) =
     (case jsonProps ps of Inl e \<Rightarrow> Inl e | Inr ts \<Rightarrow> Inr (Some (''{'' @ join '','' ts @ ''}'')))"
| "jsonElems [] = Inr []"
| "jsonElems (v # vs) =
     (case jsonText v of
        Inl e \<Rightarrow> Inl e
      | Inr t \<Rightarrow>
          (case jsonElems vs of
             Inl e \<Rightarrow> Inl e
           | Inr ts \<Rightarrow> Inr ((case t of None \<Rightarrow> ''null'' | Some x \<Rightarrow> x) # ts)))"
| "jsonProps [] = Inr []"
| "jsonProps ((k, v) # ps) =
     (case jsonText v of
        Inl e \<Rightarrow> Inl e
      | Inr t \<Rightarrow>
          (case jsonProps ps of
             Inl e \<Rightarrow> Inl e
           | Inr ts \<Rightarrow> Inr (case t of None \<Rightarrow> ts | Some x \<Rightarrow> (quoteJSON k @ '':'' @ x) # ts)))"

section \<open>asBytes\<close>

definition responseNote :: string where
  "responseNote = ''response objects are only supported in sync mode''"

fun asBytes :: "jsval \<Rightarrow> js_error + bytes" where
  "asBytes JUndefined = Inr []"
| "asBytes JNull = Inr []"
| "asBytes (JUint8Array b) = Inr b"
| "asBytes (JArrayBuffer b) = Inr b"
| "asBytes (JResponse b u) = Inr (textEncode responseNote)"
| "asBytes (JString s) = Inr (textEncode s)"
| "asBytes v =
     (case jsonText v of
        Inl e \<Rightarrow> Inl e
      | Inr None \<Rightarrow> Inr []
      | Inr (Some t) \<Rightarrow> Inr (textEncode t))"

section \<open>Requests\<close>

text \<open>
  The body of a native request can be read once; a request without a body reads as empty
  any number of times. \<open>consumeBody\<close> is what all the readers do first.
\<close>

record http_request =
  reqHeaders :: "(string \<times> string) list"
  reqBody :: "bytes option"
  bodyUsed :: bool

definition bodyUsedError :: js_error where
  "bodyUsedError = JsError ''TypeError'' ''Body already used''"

definition consumeBody :: "http_request \<Rightarrow> (js_error + bytes) \<times> http_request" where
  "consumeBody req =
     (case reqBody req of
        None \<Rightarrow> (Inr [], req)
      | Some b \<Rightarrow>
          if bodyUsed req then (Inl bodyUsedError, req)
          else (Inr b, req\<lparr>bodyUsed := True\<rparr>))"

text \<open>\<^verbatim>\<open>headers.get(name)\<close>: names compare without case, repeated fields are combined.\<close>

definition headersGet :: "http_request \<Rightarrow> string \<Rightarrow> string option" where
  "headersGet req name =
     (let vs = map snd (filter (\<lambda>(k, v). toLowerCase k = toLowerCase name) (reqHeaders req))
      in if vs = [] then None else Some (join '', '' vs))"

text \<open>
  What a handler is called with: the native request in the synchronous mode, the object built
  by \<^verbatim>\<open>toRequestLike\<close> around the payload otherwise. The readers below are its methods
  \<^verbatim>\<open>bytes\<close> and \<^verbatim>\<open>arrayBuffer\<close>, \<^verbatim>\<open>text\<close> and \<^verbatim>\<open>json\<close>; \<open>parse\<close> stands for \<^verbatim>\<open>JSON.parse\<close>.
\<close>

datatype request_arg = Native http_request | RequestLike bytes

definition toRequestLike :: "bytes \<Rightarrow> request_arg" where
  "toRequestLike payload = RequestLike payload"

fun argBytes :: "request_arg \<Rightarrow> js_error + bytes" where
  "argBytes (Native req) = fst (consumeBody req)"
| "argBytes (RequestLike payload) = Inr payload"

fun argText :: "request_arg \<Rightarrow> js_error + string" where
  "argText (Native req) = (case fst (consumeBody req) of Inl e \<Rightarrow> Inl e | Inr b \<Rightarrow> Inr (textDecode b))"
| "argText (RequestLike payload) = Inr (textDecode payload)"

fun argJson :: "(string \<Rightarrow> js_error + jsval) \<Rightarrow> request_arg \<Rightarrow> js_error + jsval" where
  "argJson parse (Native req) =
     (case fst (consumeBody req) of Inl e \<Rightarrow> Inl e | Inr b \<Rightarrow> parse (textDecode b))"
| "argJson parse (RequestLike payload) =
     (if length payload = 0 then Inr (JObject [] None None) else parse (textDecode payload))"

text \<open>
  A loaded module, of which the runtime reads one export; \<^const>\<open>None\<close> when \<^verbatim>\<open>handle\<close> is
  missing or not a function. The handler is user code: any function of its argument.
\<close>

type_synonym handler = "request_arg \<Rightarrow> jsval settled"

datatype loaded_module = Module (handle: "handler option")

section \<open>Lemmas\<close>

text \<open>The values whose JSON text cannot be built: those that reach a \<^verbatim>\<open>BigInt\<close>.\<close>

fun reachesBigInt :: "jsval \<Rightarrow> bool"
  and anyBigInt :: "jsval list \<Rightarrow> bool"
  and anyPropBigInt :: "(string \<times> jsval) list \<Rightarrow> bool"
where
  "reachesBigInt (JBigInt i) = True"
| "reachesBigInt (JArray vs) = anyBigInt vs"
| "reachesBigInt (JObject ps it ait) = anyPropBigInt ps"
| "reachesBigInt _ = False"
| "anyBigInt [] = False"
| "anyBigInt (v # vs) = (reachesBigInt v \<or> anyBigInt vs)"
| "anyPropBigInt [] = False"
| "anyPropBigInt ((k, v) # ps) = (reachesBigInt v \<or> anyPropBigInt ps)"

lemma jsonText_fails:
  "(\<exists>e. jsonText v = Inl e) \<longleftrightarrow> reachesBigInt v"
  "(\<exists>e. jsonElems vs = Inl e) \<longleftrightarrow> anyBigInt vs"
  "(\<exists>e. jsonProps ps = Inl e) \<longleftrightarrow> anyPropBigInt ps"
  by (induction v and vs and ps rule: jsonText_jsonElems_jsonProps.induct)
    (auto split: sum.splits option.splits)

lemma jsonText_error:
  "jsonText v = Inl e \<Longrightarrow> e = bigIntError"
  "jsonElems vs = Inl e \<Longrightarrow> e = bigIntError"
  "jsonProps ps = Inl e \<Longrightarrow> e = bigIntError"
  by (induction v and vs and ps arbitrary: e and e and e rule: jsonText_jsonElems_jsonProps.induct)
    (auto split: sum.splits option.splits)

lemma asBytes_fails: "(\<exists>e. asBytes v = Inl e) \<longleftrightarrow> reachesBigInt v"
  using jsonText_fails(1) [of v] by (cases v) (auto split: sum.splits option.splits)

lemma showNat_length: "n < 10 ^ k \<Longrightarrow> 0 < k \<Longrightarrow> length (showNat n) \<le> k"
proof (induction k arbitrary: n)
  case (Suc k)
  show ?case
  proof (cases "n < 10")
    case True
    then show ?thesis by (simp add: showNat.simps [of n])
  next
    case False
    with Suc.prems have "n div 10 < 10 ^ k" "0 < k"
      by (auto simp: div_less_iff_less_mult intro: gr0I)
    with Suc.IH have "length (showNat (n div 10)) \<le> k" by blast
    with False show ?thesis by (simp add: showNat.simps [of n])
  qed
qed simp

lemma dropZeros_split: "\<exists>k. s = dropZeros s @ replicate k CHR ''0''"
proof -
  let ?z = "takeWhile (\<lambda>c. c = CHR ''0'') (rev s)"
  have "\<forall>c \<in> set ?z. c = CHR ''0''" by (auto dest: set_takeWhileD)
  then have "?z = replicate (length ?z) CHR ''0''" by (induction ?z) (auto intro: replicate_eqI)
  moreover have "s = dropZeros s @ rev ?z"
    unfolding dropZeros_def by (metis rev_append rev_rev_ident takeWhile_dropWhile_id)
  ultimately show ?thesis by (metis rev_replicate)
qed

lemma digitsValue_zeros: "\<forall>c \<in> set s. c = CHR ''0'' \<Longrightarrow> digitsValue s = 0"
  by (induction s rule: rev_induct) (auto simp: digitsValue_snoc digitsValue_def digitValue_def)

lemma dropZeros_showNat: "0 < n \<Longrightarrow> dropZeros (showNat n) \<noteq> []"
proof
  assume "0 < n" and "dropZeros (showNat n) = []"
  then have "\<forall>c \<in> set (showNat n). c = CHR ''0''"
    by (simp add: dropZeros_def dropWhile_eq_Nil_conv)
  then have "digitsValue (showNat n) = 0" by (rule digitsValue_zeros)
  with \<open>0 < n\<close> show False by (simp add: digitsValue_showNat)
qed

text \<open>A natural number below \<open>10^21\<close> is written in plain decimal.\<close>

lemma numberText_nat:
  assumes "m < 10 ^ 21"
  shows "numberText (numOfNat m) = showNat m"
proof (cases "m = 0")
  case True
  then show ?thesis by (simp add: numOfNat_def digitsText_def show_eval)
next
  case False
  then have ne: "dropZeros (showNat m) \<noteq> []" by (simp add: dropZeros_showNat)
  obtain k where k: "showNat m = dropZeros (showNat m) @ replicate k CHR ''0''"
    using dropZeros_split by blast
  then have "length (showNat m) = length (dropZeros (showNat m)) + k"
    by (metis length_append length_replicate)
  moreover have "length (showNat m) \<le> 21" using assms by (intro showNat_length) auto
  ultimately show ?thesis
    using False ne k by (simp add: numOfNat_def digitsText_def)
qed

lemma numberText_byte: "numberText (numOfNat (unat (b :: 8 word))) = showNat (unat b)"
proof (rule numberText_nat)
  show "unat b < 10 ^ 21" by (rule order_less_trans [OF unsigned_less]) simp
qed

end
