(* ===== verification/Rt_Json.thy ===== *)
theory Rt_Json
  imports Rt_Value Rt_Map
begin

text \<open>
  \<^verbatim>\<open>JSON.parse\<close>: a lexer and a machine that consumes one token at a time, with the arrays and
  objects that are still open on a stack. Both are total: a text is rejected when the lexer or
  a step of the machine gives \<^const>\<open>None\<close>, or when a token is missing at the end. Rounding a
  decimal to the nearest double is an argument. A lone surrogate in an escape becomes U+FFFD,
  which is what every way of sending the text on makes of it.
\<close>

section \<open>Strings\<close>

datatype str_item = Raw char | Unit nat

definition isHex :: "char \<Rightarrow> bool" where
  "isHex c =
     (let n = (of_char c :: nat) in
       (48 \<le> n \<and> n \<le> 57) \<or> (65 \<le> n \<and> n \<le> 70) \<or> (97 \<le> n \<and> n \<le> 102))"

definition simpleEscape :: "char \<Rightarrow> char option" where
  "simpleEscape e =
     (if e \<in> set [CHR 0x22, CHR 0x5C, CHR ''/''] then Some e
      else map_of [(CHR ''b'', CHR 0x08), (CHR ''f'', CHR 0x0C), (CHR ''n'', CHR 0x0A),
                   (CHR ''r'', CHR 0x0D), (CHR ''t'', CHR 0x09)] e)"

text \<open>What follows an opening quote: the items up to the closing one, and the rest.\<close>

fun lexString :: "string \<Rightarrow> (str_item list \<times> string) option" where
  "lexString [] = None"
| "lexString (c # s) =
     (if c = CHR 0x22 then Some ([], s)
      else if c = CHR 0x5C then
        (case s of
           [] \<Rightarrow> None
         | e # t \<Rightarrow>
             if e = CHR ''u'' then
               (case t of
                  h1 # h2 # h3 # h4 # r \<Rightarrow>
                    if list_all isHex [h1, h2, h3, h4] then
                      map_option (\<lambda>(is, r'). (Unit (4096 * hexValue h1 + 256 * hexValue h2
                          + 16 * hexValue h3 + hexValue h4) # is, r')) (lexString r)
                    else None
                | _ \<Rightarrow> None)
             else
               (case simpleEscape e of
                  None \<Rightarrow> None
                | Some x \<Rightarrow> map_option (\<lambda>(is, r'). (Raw x # is, r')) (lexString t)))
      else if (of_char c :: nat) < 32 then None
      else map_option (\<lambda>(is, r'). (Raw c # is, r')) (lexString s))"

definition utf8Encode :: "nat \<Rightarrow> string" where
  "utf8Encode n =
     map char_of
       (if n < 0x80 then [n]
        else if n < 0x800 then [0xC0 + n div 64, 0x80 + n mod 64]
        else if n < 0x10000 then [0xE0 + n div 4096, 0x80 + n div 64 mod 64, 0x80 + n mod 64]
        else [0xF0 + n div 262144, 0x80 + n div 4096 mod 64, 0x80 + n div 64 mod 64, 0x80 + n mod 64])"

definition highSurrogate :: "nat \<Rightarrow> bool" where
  "highSurrogate n = (0xD800 \<le> n \<and> n < 0xDC00)"

definition lowSurrogate :: "nat \<Rightarrow> bool" where
  "lowSurrogate n = (0xDC00 \<le> n \<and> n < 0xE000)"

definition unitText :: "nat \<Rightarrow> string" where
  "unitText n = utf8Encode (if highSurrogate n \<or> lowSurrogate n then 0xFFFD else n)"

fun itemsText :: "str_item list \<Rightarrow> string" where
  "itemsText [] = []"
| "itemsText (Raw c # is) = c # itemsText is"
| "itemsText (Unit h # Unit l # is) =
     (if highSurrogate h \<and> lowSurrogate l
      then utf8Encode (0x10000 + 1024 * (h - 0xD800) + (l - 0xDC00)) @ itemsText is
      else unitText h @ itemsText (Unit l # is))"
| "itemsText (Unit h # is) = unitText h @ itemsText is"

section \<open>Numbers\<close>

text \<open>The decimal \<open>0.d * 10^n\<close> without leading or trailing zeros.\<close>

definition decimal :: "bool \<Rightarrow> string \<Rightarrow> int \<Rightarrow> jsnum" where
  "decimal neg d n =
     (let zeros = takeWhile (\<lambda>c. c = CHR ''0'') d; s = dropZeros (drop (length zeros) d)
      in if s = [] then Finite neg [] 0 else Finite neg s (n - int (length zeros)))"

definition signedDigits :: "string \<Rightarrow> (int \<times> string) option" where
  "signedDigits s =
     (let neg = startsWith s ''-'';
          t = (if neg \<or> startsWith s ''+'' then drop 1 s else s);
          ds = takeWhile isDigit t
      in if ds = [] then None
         else Some (if neg then - int (digitsValue ds) else int (digitsValue ds),
                    dropWhile isDigit t))"

definition lexExponent :: "string \<Rightarrow> (int \<times> string) option" where
  "lexExponent s =
     (if startsWith s ''e'' \<or> startsWith s ''E'' then signedDigits (drop 1 s) else Some (0, s))"

definition lexFraction :: "string \<Rightarrow> (string \<times> string) option" where
  "lexFraction s =
     (if startsWith s ''.'' then
        (let ds = takeWhile isDigit (drop 1 s)
         in if ds = [] then None else Some (ds, dropWhile isDigit (drop 1 s)))
      else Some ([], s))"

text \<open>A leading zero stands alone.\<close>

definition lexInteger :: "string \<Rightarrow> (string \<times> string) option" where
  "lexInteger s =
     (if startsWith s ''0'' then Some (''0'', drop 1 s)
      else if takeWhile isDigit s = [] then None
      else Some (takeWhile isDigit s, dropWhile isDigit s))"

definition lexNumber :: "string \<Rightarrow> (jsnum \<times> string) option" where
  "lexNumber s =
     (let neg = startsWith s ''-'' in
      case lexInteger (if neg then drop 1 s else s) of
        None \<Rightarrow> None
      | Some (ip, s1) \<Rightarrow>
          (case lexFraction s1 of
             None \<Rightarrow> None
           | Some (fp, s2) \<Rightarrow>
               (case lexExponent s2 of
                  None \<Rightarrow> None
                | Some (e, s3) \<Rightarrow> Some (decimal neg (ip @ fp) (int (length ip) + e), s3))))"

section \<open>Tokens\<close>

datatype token =
    TOpenArray | TCloseArray | TOpenObject | TCloseObject | TComma | TColon
  | TNull | TTrue | TFalse | TNumber jsnum | TString string

definition isJsonSpace :: "char \<Rightarrow> bool" where
  "isJsonSpace c = (c \<in> set [CHR 0x20, CHR 0x09, CHR 0x0A, CHR 0x0D])"

definition punctuation :: "char \<Rightarrow> token option" where
  "punctuation =
     map_of [(CHR ''['', TOpenArray), (CHR '']'', TCloseArray), (CHR ''{'', TOpenObject),
             (CHR ''}'', TCloseObject), (CHR '','', TComma), (CHR '':'', TColon)]"

definition keyword :: "string \<Rightarrow> (token \<times> string) option" where
  "keyword s =
     (if startsWith s ''null'' then Some (TNull, drop 4 s)
      else if startsWith s ''true'' then Some (TTrue, drop 4 s)
      else if startsWith s ''false'' then Some (TFalse, drop 5 s)
      else None)"

text \<open>The first token of a text that does not start with white space, and the rest.\<close>

definition lexToken :: "string \<Rightarrow> (token \<times> string) option" where
  "lexToken s =
     (case s of
        [] \<Rightarrow> None
      | c # t \<Rightarrow>
          (case punctuation c of
             Some tok \<Rightarrow> Some (tok, t)
           | None \<Rightarrow>
               if c = CHR 0x22 then map_option (\<lambda>(is, r). (TString (itemsText is), r)) (lexString t)
               else if c = CHR ''-'' \<or> isDigit c then map_option (\<lambda>(n, r). (TNumber n, r)) (lexNumber s)
               else keyword s))"

lemma lexString_shorter: "lexString s = Some (is, r) \<Longrightarrow> length r < length s"
  by (induction s arbitrary: "is" r rule: lexString.induct)
    (force split: if_splits list.splits option.splits)+

lemma lexNumber_shorter:
  assumes "lexNumber s = Some (n, r)"
  shows "length r < length s"
proof -
  let ?s = "if startsWith s ''-'' then drop 1 s else s"
  obtain ip s1 fp s2 e where i: "lexInteger ?s = Some (ip, s1)" and f: "lexFraction s1 = Some (fp, s2)"
    and x: "lexExponent s2 = Some (e, r)"
    using assms by (auto simp: lexNumber_def Let_def split: option.splits)
  have "length s1 < length ?s"
    using i by (auto simp: lexInteger_def startsWith_iff split: if_splits)
      (metis dropWhile_eq_drop length_dropWhile_le linorder_not_le takeWhile_dropWhile_id append_eq_append_conv2 length_append less_add_same_cancel2 length_greater_0_conv)+
  moreover have "length s2 \<le> length s1"
    using f length_dropWhile_le [of isDigit "drop 1 s1"]
    by (auto simp: lexFraction_def Let_def split: if_splits)
  moreover have "length r \<le> length s2"
    using x length_dropWhile_le [of isDigit "drop 1 (drop 1 s2)"] length_dropWhile_le [of isDigit "drop 1 s2"]
    by (auto simp: lexExponent_def signedDigits_def Let_def split: if_splits)
  ultimately show ?thesis by (auto split: if_splits)
qed

lemma lexToken_shorter:
  assumes "lexToken s = Some (tok, r)"
  shows "length r < length s"
proof (cases s)
  case Nil
  with assms show ?thesis by (simp add: lexToken_def)
next
  case (Cons c t)
  then show ?thesis
    using assms lexString_shorter [of t] lexNumber_shorter [of s]
    by (auto simp: lexToken_def keyword_def split: option.splits if_splits)
qed

function lexAll :: "string \<Rightarrow> token list option" where
  "lexAll [] = Some []"
| "lexAll (c # s) =
     (if isJsonSpace c then lexAll s
      else (case lexToken (c # s) of
              None \<Rightarrow> None
            | Some (tok, r) \<Rightarrow> map_option (Cons tok) (lexAll r)))"
  by pat_completeness auto
termination
  by (relation "measure length") (auto dest!: lexToken_shorter)

section \<open>The machine\<close>

text \<open>
  Open arrays with their elements, open objects with their properties, and an object with the
  name whose value is being read.
\<close>

datatype frame =
    InArray "jsval list"
  | InObject "(string \<times> jsval) list"
  | InProperty "(string \<times> jsval) list" string

datatype expects = Value bool | Name bool | Colon | After | Complete jsval
  \<comment> \<open>the flags: the array or object was just opened, and may also be closed\<close>

text \<open>
  Objects enumerate their array indices in ascending order and then the other names in the
  order of their creation.
\<close>

definition arrayIndex :: "string \<Rightarrow> nat option" where
  "arrayIndex k =
     (let n = digitsValue k
      in if k \<noteq> [] \<and> list_all isDigit k \<and> showNat n = k \<and> n < 2 ^ 32 - 1 then Some n else None)"

definition orderProps :: "(string \<times> 'v) list \<Rightarrow> (string \<times> 'v) list" where
  "orderProps ps =
     sort_key (\<lambda>(k, v). the (arrayIndex k)) (filter (\<lambda>(k, v). arrayIndex k \<noteq> None) ps)
     @ filter (\<lambda>(k, v). arrayIndex k = None) ps"

definition deliver :: "jsval \<Rightarrow> frame list \<Rightarrow> (expects \<times> frame list) option" where
  "deliver v st =
     (case st of
        [] \<Rightarrow> Some (Complete v, [])
      | InArray vs # st' \<Rightarrow> Some (After, InArray (vs @ [v]) # st')
      | InProperty ps k # st' \<Rightarrow> Some (After, InObject (mapSet k v ps) # st')
      | InObject ps # st' \<Rightarrow> None)"

definition scalar :: "(jsnum \<Rightarrow> jsnum) \<Rightarrow> token \<Rightarrow> jsval option" where
  "scalar nearest tok =
     (case tok of
        TNull \<Rightarrow> Some JNull
      | TTrue \<Rightarrow> Some (JBool True)
      | TFalse \<Rightarrow> Some (JBool False)
      | TNumber n \<Rightarrow> Some (JNum (nearest n))
      | TString s \<Rightarrow> Some (JString s)
      | _ \<Rightarrow> None)"

text \<open>Closing the innermost array or object, which then is a value of the one around it.\<close>

definition closeFrame :: "token \<Rightarrow> frame list \<Rightarrow> (expects \<times> frame list) option" where
  "closeFrame tok st =
     (case (tok, st) of
        (TCloseArray, InArray vs # st') \<Rightarrow> deliver (JArray vs) st'
      | (TCloseObject, InObject ps # st') \<Rightarrow> deliver (JObject (orderProps ps) None None) st'
      | _ \<Rightarrow> None)"

fun parseStep ::
    "(jsnum \<Rightarrow> jsnum) \<Rightarrow> token \<Rightarrow> expects \<times> frame list \<Rightarrow> (expects \<times> frame list) option" where
  "parseStep nearest tok (Value fresh, st) =
     (case tok of
        TOpenArray \<Rightarrow> Some (Value True, InArray [] # st)
      | TOpenObject \<Rightarrow> Some (Name True, InObject [] # st)
      | TCloseArray \<Rightarrow> if fresh then closeFrame tok st else None
      | _ \<Rightarrow> (case scalar nearest tok of None \<Rightarrow> None | Some v \<Rightarrow> deliver v st))"
| "parseStep nearest tok (Name fresh, st) =
     (case (tok, st) of
        (TString k, InObject ps # st') \<Rightarrow> Some (Colon, InProperty ps k # st')
      | (TCloseObject, _) \<Rightarrow> if fresh then closeFrame tok st else None
      | _ \<Rightarrow> None)"
| "parseStep nearest tok (Colon, st) = (if tok = TColon then Some (Value False, st) else None)"
| "parseStep nearest tok (After, st) =
     (if tok = TComma then
        (case st of
           InArray vs # st' \<Rightarrow> Some (Value False, st)
         | InObject ps # st' \<Rightarrow> Some (Name False, st)
         | _ \<Rightarrow> None)
      else closeFrame tok st)"
| "parseStep nearest tok (Complete v, st) = None"

fun parseTokens ::
    "(jsnum \<Rightarrow> jsnum) \<Rightarrow> token list \<Rightarrow> expects \<times> frame list \<Rightarrow> (expects \<times> frame list) option" where
  "parseTokens nearest [] x = Some x"
| "parseTokens nearest (tok # toks) x =
     (case parseStep nearest tok x of None \<Rightarrow> None | Some y \<Rightarrow> parseTokens nearest toks y)"

definition jsonParse :: "(jsnum \<Rightarrow> jsnum) \<Rightarrow> string \<Rightarrow> jsval option" where
  "jsonParse nearest text =
     (case lexAll text of
        None \<Rightarrow> None
      | Some toks \<Rightarrow>
          (case parseTokens nearest toks (Value False, []) of
             Some (Complete v, []) \<Rightarrow> Some v
           | _ \<Rightarrow> None))"

end
