(* ===== verification/Rt_Platform.thy ===== *)
theory Rt_Platform
  imports Rt_Dir Rt_Json
begin

text \<open>
  What the runtime calls and the repository does not contain, as one record every definition
  takes as an argument: the directory of the module (\<^verbatim>\<open>import.meta.dir\<close>), running a
  command (\<^verbatim>\<open>Bun.spawn\<close>, in effect \<^verbatim>\<open>git\<close>), the URL parser, the evaluation of a user's
  module, the rounding of a decimal to a double, the NATS client and \<^verbatim>\<open>Bun.serve\<close>. Nothing is assumed about these functions
  here; the properties that rely on documented behaviour of one of them say so.
\<close>

datatype spawn_result = SpawnFailed js_error | Exited int string string

record platform =
  metaDir :: string
  spawnProc :: "string list \<Rightarrow> fs \<Rightarrow> spawn_result \<times> fs"
  parseURL :: "string \<Rightarrow> js_error + (string \<times> string)"  \<comment> \<open>its protocol and its host\<close>
  evalModule :: "bytes \<Rightarrow> js_error + loaded_module"
  nearestDouble :: "jsnum \<Rightarrow> jsnum"
  syntaxMessage :: "string \<Rightarrow> string"  \<comment> \<open>the text of the error for malformed JSON\<close>
  natsConnect :: "string \<Rightarrow> js_error option"  \<comment> \<open>\<^const>\<open>None\<close>: the call succeeds\<close>
  natsManager :: "js_error option"
  streamsAdd :: "string \<Rightarrow> string list \<Rightarrow> js_error option"
  natsSubscribe :: "string \<Rightarrow> js_error option"
  natsPublish :: "string \<Rightarrow> bytes \<Rightarrow> js_error option"
  bunServe :: "int \<Rightarrow> js_error option"

text \<open>\<^verbatim>\<open>JSON.parse(text)\<close>\<close>

definition parseJSON :: "platform \<Rightarrow> string \<Rightarrow> js_error + jsval" where
  "parseJSON pf s =
     (case jsonParse (nearestDouble pf) s of
        None \<Rightarrow> Inl (JsError ''SyntaxError'' (syntaxMessage pf s))
      | Some v \<Rightarrow> Inr v)"

text \<open>
  Two facts about the environment that properties name: the module lives under an absolute
  path, and a command leaves a file system behind in which every entry lies in a directory.
\<close>

definition installed :: "platform \<Rightarrow> bool" where
  "installed pf \<longleftrightarrow> canonical (metaDir pf)"

definition commandsTidy :: "platform \<Rightarrow> bool" where
  "commandsTidy pf \<longleftrightarrow> (\<forall>cmd fs. fsInv fs \<longrightarrow> fsInv (snd (spawnProc pf cmd fs)))"

text \<open>
  The state of \<^verbatim>\<open>functions.ts\<close>: the module cache and its version, and the table of the
  module loader, which remembers for every URL the outcome of importing it once.
\<close>

record fn_state = os +
  modules :: "(string, loaded_module) jsmap"
  moduleVersion :: nat
  importTable :: "(string, js_error + loaded_module) jsmap"

section \<open>An example platform\<close>

text \<open>
  A concrete instance, used where a property is applied to concrete data: commands succeed and
  change nothing, a module answers with its own source text, NATS accepts everything.
\<close>

definition demoModule :: "bytes \<Rightarrow> loaded_module" where
  "demoModule content = Module (Some (\<lambda>arg. Resolved (JString (textDecode content))))"

definition demoPlatform :: platform where
  "demoPlatform =
     \<lparr>metaDir = ''/app/pkg'',
      spawnProc = (\<lambda>cmd fs. (Exited 0 [] [], fs)),
      parseURL = (\<lambda>url. Inr (''https:'', ''git.example.org'')),
      evalModule = (\<lambda>content. Inr (demoModule content)),
      nearestDouble = (\<lambda>x. x),
      syntaxMessage = (\<lambda>text. ''JSON Parse error''),
      natsConnect = (\<lambda>url. None), natsManager = None,
      streamsAdd = (\<lambda>name subjects. None),
      natsSubscribe = (\<lambda>subject. None), natsPublish = (\<lambda>subject payload. None),
      bunServe = (\<lambda>port. None)\<rparr>"

definition demoSettings :: settings where
  "demoSettings =
     \<lparr>project = ''shop'', natsURL = ''nats:4222'', httpPort = 8080,
      vcsBaseURL = ''https://git.example.org'', gitUser = ''ops@example.org'',
      gitToken = ''s3:cret'', settingsName = []\<rparr>"

text \<open>A clone with one function, and a runtime directory with a stale one and a note.\<close>

definition demoFiles :: fs where
  "demoFiles =
     [([''tmp''], Dir), ([''tmp'', ''shop''], Dir), ([''tmp'', ''shop'', ''functions''], Dir),
      ([''tmp'', ''shop'', ''functions'', ''ts''], Dir),
      ([''tmp'', ''shop'', ''functions'', ''ts'', ''hello.ts''], File [104, 105]),
      ([''app''], Dir), ([''app'', ''pkg''], Dir),
      ([''app'', ''pkg'', ''conf.ts''], File [99]),
      ([''app'', ''pkg'', ''functions''], Dir),
      ([''app'', ''pkg'', ''functions'', ''old.ts''], File [120]),
      ([''app'', ''pkg'', ''functions'', ''README.md''], File [35])]"

lemma demo_installed: "installed demoPlatform"
  by (simp add: installed_def demoPlatform_def canonical_def pathKey_def startsWith_def plainName_def)

lemma demo_tidy: "commandsTidy demoPlatform"
  by (simp add: commandsTidy_def demoPlatform_def)

lemma demo_fsInv: "fsInv demoFiles"
  by (simp add: fsInv_def demoFiles_def mapInv_def mapKeys_def fsStat_def mapGet_def)

end
