(* ===== verification/Rt_Sync.thy ===== *)
theory Rt_Sync
  imports Rt_Platform
begin

text \<open>
  \<^verbatim>\<open>runtimes/ts/pkg/functions.ts\<close>, first part: where the code lives, the repository's URL,
  running \<^verbatim>\<open>git\<close>, refreshing the local clone, and mirroring its function files into the
  directory modules are loaded from.
\<close>

section \<open>Paths and the repository's URL\<close>

definition repoPath :: "settings \<Rightarrow> string" where
  "repoPath cfg = pathJoin [''/tmp'', project cfg]"

definition repoFunctionsPath :: "settings \<Rightarrow> string" where
  "repoFunctionsPath cfg = pathJoin [repoPath cfg, ''functions'', ''ts'']"

definition runtimeFunctionsPath :: "platform \<Rightarrow> string" where
  "runtimeFunctionsPath pf = pathJoin [metaDir pf, ''functions'']"

definition repoURL :: "platform \<Rightarrow> settings \<Rightarrow> js_error + string" where
  "repoURL pf cfg =
     (let owner = (if gitUser cfg = [] then ''git'' else gitUser cfg);
          projectPath = owner @ ''/'' @ project cfg
      in if gitToken cfg = [] then Inr (vcsBaseURL cfg @ ''/'' @ projectPath)
         else (case parseURL pf (vcsBaseURL cfg) of
                 Inl e \<Rightarrow> Inl e
               | Inr (protocol, host) \<Rightarrow>
                   let user = encodeGitPart owner; token = encodeGitPart (gitToken cfg)
                   in Inr (protocol @ ''//'' @ user @ '':'' @ token @ ''@'' @ host @ ''/''
                           @ projectPath)))"

section \<open>Running commands and refreshing the clone\<close>

definition commandError :: "string list \<Rightarrow> string \<Rightarrow> string \<Rightarrow> js_error" where
  "commandError cmd out err =
     JsError ''Error''
       (''command failed ('' @ join '' '' cmd @ '')'' @ [CHR 0x0A] @ ''stdout: '' @ out
        @ [CHR 0x0A] @ ''stderr: '' @ err)"

definition run :: "platform \<Rightarrow> string list \<Rightarrow> ('a os_scheme, unit) act" where
  "run pf cmd s =
     (case spawnProc pf cmd (files s) of
        (r, fs) \<Rightarrow>
          (let t = s\<lparr>files := fs, spawned := spawned s @ [cmd]\<rparr>
           in case r of
                SpawnFailed e \<Rightarrow> (Inl e, t)
              | Exited code out err \<Rightarrow>
                  if code = 0 then (Inr (), t) else (Inl (commandError cmd out err), t)))"

definition gitFetch :: "settings \<Rightarrow> string list" where
  "gitFetch cfg = [''git'', ''-C'', repoPath cfg, ''fetch'', ''--all'', ''--prune'']"

definition gitReset :: "settings \<Rightarrow> string \<Rightarrow> string list" where
  "gitReset cfg ref = [''git'', ''-C'', repoPath cfg, ''reset'', ''--hard'', ref]"

definition gitClone :: "settings \<Rightarrow> string \<Rightarrow> string list" where
  "gitClone cfg url = [''git'', ''clone'', url, repoPath cfg]"

definition syncRepo :: "platform \<Rightarrow> settings \<Rightarrow> ('a os_scheme, unit) act" where
  "syncRepo pf cfg =
     andThen (fileExists (repoPath cfg)) (\<lambda>present.
       if present then
         andThen (run pf (gitFetch cfg)) (\<lambda>_.
           tryCatch (run pf (gitReset cfg ''origin/main''))
             (\<lambda>_. run pf (gitReset cfg ''origin/master'')))
       else
         andThen (fromResult (repoURL pf cfg)) (\<lambda>url. run pf (gitClone cfg url)))"

section \<open>Function files\<close>

definition nameChar :: "char \<Rightarrow> bool" where
  "nameChar c =
     (let n = (of_char c :: nat) in
       (65 \<le> n \<and> n \<le> 90) \<or> (97 \<le> n \<and> n \<le> 122) \<or> (48 \<le> n \<and> n \<le> 57) \<or> n = 95 \<or> n = 45)"

text \<open>\<^verbatim>\<open>/^[A-Za-z0-9_-]+\.ts$/.test(name)\<close>\<close>

definition functionNamePattern :: "string \<Rightarrow> bool" where
  "functionNamePattern name =
     (let stem = take (length name - 3) name
      in endsWith name ''.ts'' \<and> stem \<noteq> [] \<and> list_all nameChar stem)"

definition isFunctionFile :: "string \<Rightarrow> bool" where
  "isFunctionFile name =
     (if \<not> functionNamePattern name then False
      else if endsWith name ''.d.ts'' then False
      else True)"

definition ensureRuntimeDir :: "platform \<Rightarrow> ('a os_scheme, unit) act" where
  "ensureRuntimeDir pf = onFiles (fsMkdir (runtimeFunctionsPath pf))"

definition clearModuleCache :: "('a fn_state_scheme, unit) act" where
  "clearModuleCache =
     modify (\<lambda>s. s\<lparr>modules := [], moduleVersion := moduleVersion s + 1\<rparr>)"

section \<open>Mirroring the repository's function files\<close>

definition purgeRuntimeDir :: "string \<Rightarrow> string list \<Rightarrow> ('a os_scheme, unit) act" where
  "purgeRuntimeDir runtimeRoot entries =
     forEach entries () (\<lambda>entry _.
       if \<not> isFunctionFile entry then ret ()
       else onFiles (fsRmForce (pathJoin [runtimeRoot, entry])))"

definition copyFunctions :: "string \<Rightarrow> string \<Rightarrow> string list \<Rightarrow> ('a os_scheme, nat) act" where
  "copyFunctions runtimeRoot sourceRoot entries =
     forEach entries 0 (\<lambda>entry copied.
       if \<not> isFunctionFile entry then ret copied
       else
         andThen (fromFiles (\<lambda>fs. fsReadFile fs (pathJoin [sourceRoot, entry]))) (\<lambda>content.
           andThen (onFiles (fsWriteFile (pathJoin [runtimeRoot, entry]) content)) (\<lambda>_.
             ret (Suc copied))))"

definition syncRuntimeFunctionsDir ::
    "platform \<Rightarrow> settings \<Rightarrow> string \<Rightarrow> ('a fn_state_scheme, unit) act" where
  "syncRuntimeFunctionsDir pf cfg sourceRoot =
     (let runtimeRoot = runtimeFunctionsPath pf in
      andThen (onFiles (fsMkdir runtimeRoot)) (\<lambda>_.
      andThen (fromFiles (\<lambda>fs. fsReaddir fs runtimeRoot)) (\<lambda>old.
      andThen (purgeRuntimeDir runtimeRoot old) (\<lambda>_.
      andThen (fileExists sourceRoot) (\<lambda>present.
      andThen (if present
               then andThen (fromFiles (\<lambda>fs. fsReaddir fs sourceRoot))
                      (copyFunctions runtimeRoot sourceRoot)
               else ret 0) (\<lambda>copied.
      andThen clearModuleCache (\<lambda>_.
      logInfo ''repo sync complete''
        [(''project'', project cfg), (''repo_functions_path'', sourceRoot),
         (''runtime_functions_path'', runtimeRoot), (''files_copied'', showNat copied)])))))))"

definition syncRepoAndReload :: "platform \<Rightarrow> settings \<Rightarrow> ('a fn_state_scheme, unit) act" where
  "syncRepoAndReload pf cfg =
     andThen (logInfo ''syncing repo''
       [(''project'', project cfg),
        (''repo_url'', vcsBaseURL cfg @ ''/'' @ gitUser cfg @ ''/'' @ project cfg)]) (\<lambda>_.
     andThen (syncRepo pf cfg) (\<lambda>_.
     syncRuntimeFunctionsDir pf cfg (repoFunctionsPath cfg)))"

definition listFunctions :: "platform \<Rightarrow> ('a os_scheme, string list) act" where
  "listFunctions pf =
     (let root = runtimeFunctionsPath pf in
      andThen (fileExists root) (\<lambda>present.
        if \<not> present then ret []
        else
          andThen (fromFiles (\<lambda>fs. fsReaddir fs root)) (\<lambda>entries.
          andThen (forEach entries [] (\<lambda>entry names.
            if \<not> isFunctionFile entry then ret names
            else ret (setAdd (pathBasename entry ''.ts'') names))) (\<lambda>names.
          ret (sort names)))))"

section \<open>Lemmas: names and paths\<close>

lemma isFunctionFile_iff:
  "isFunctionFile name \<longleftrightarrow> (\<exists>stem. name = stem @ ''.ts'' \<and> stem \<noteq> [] \<and> list_all nameChar stem)"
proof -
  have "functionNamePattern name \<longleftrightarrow>
      (\<exists>stem. name = stem @ ''.ts'' \<and> stem \<noteq> [] \<and> list_all nameChar stem)"
    by (auto simp: functionNamePattern_def endsWith_iff)
  moreover have "\<not> list_all nameChar stem" if "endsWith (stem @ ''.ts'') ''.d.ts''" for stem
  proof -
    from that obtain u where "stem @ ''.ts'' = (u @ ''.d'') @ ''.ts''" by (auto simp: endsWith_iff)
    then have "stem = u @ ''.d''" by (simp only: append_same_eq)
    then show ?thesis by (simp add: nameChar_def)
  qed
  ultimately show ?thesis unfolding isFunctionFile_def by auto
qed

lemma nameChar_not: "nameChar c \<Longrightarrow> c \<noteq> CHR ''/'' \<and> c \<noteq> CHR ''.'' \<and> c \<noteq> CHR ''?'' \<and> c \<noteq> CHR ''*''"
  by (auto simp: nameChar_def)

text \<open>A function name: the stem of a function file.\<close>

definition functionName :: "string \<Rightarrow> bool" where
  "functionName name \<longleftrightarrow> name \<noteq> [] \<and> list_all nameChar name"

lemma isFunctionFile_name: "isFunctionFile f \<longleftrightarrow> (\<exists>name. f = name @ ''.ts'' \<and> functionName name)"
  by (auto simp: isFunctionFile_iff functionName_def)

lemma isFunctionFile_ts [simp]: "isFunctionFile (name @ ''.ts'') \<longleftrightarrow> functionName name"
  by (auto simp: isFunctionFile_name)

lemma functionName_free:
  assumes "functionName name"
  shows "CHR ''/'' \<notin> set name" "CHR ''.'' \<notin> set name" "name \<noteq> []"
  using assms nameChar_not by (auto simp: functionName_def list_all_iff)

lemma functionName_plain: "functionName name \<Longrightarrow> plainName (name @ ''.ts'')"
  using functionName_free [of name] by (cases name) (auto simp: plainName_def)

lemma isFunctionFile_plain: "isFunctionFile f \<Longrightarrow> plainName f"
  by (auto simp: isFunctionFile_name functionName_plain)

lemma pathBasename_ts:
  assumes "functionName name"
  shows "pathBasename (name @ ''.ts'') ''.ts'' = name"
proof -
  have "split CHR ''/'' (name @ ''.ts'') = [name @ ''.ts'']"
    using functionName_free(1) [OF assms] by (simp add: split_free)
  then show ?thesis
    using functionName_free(3) [OF assms] by (simp add: pathBasename_def endsWith_iff)
qed

lemma canonical_tmp: "canonical ''/tmp''"
  by (simp add: canonical_def pathKey_def startsWith_def plainName_def)

lemma canonical_repoPath: "canonical (repoPath cfg)"
  by (simp add: repoPath_def canonical_tmp path_simps)

lemma plain_literals: "plainName ''functions''" "plainName ''ts''"
  by (simp_all add: plainName_def)

lemma repoFunctionsPath_key:
  "canonical (repoFunctionsPath cfg)"
  "pathKey (repoFunctionsPath cfg) = pathKey (repoPath cfg) @ [''functions'', ''ts'']"
  using canonical_repoPath plain_literals
  by (simp_all add: repoFunctionsPath_def canonical_pathJoin pathKey_pathJoin_names)

lemma runtimeFunctionsPath_key:
  assumes "installed pf"
  shows "canonical (runtimeFunctionsPath pf)"
    and "pathKey (runtimeFunctionsPath pf) = pathKey (metaDir pf) @ [''functions'']"
  using assms plain_literals
  by (simp_all add: runtimeFunctionsPath_def installed_def path_simps)

text \<open>The two directories are never the same one, whatever the project is called.\<close>

lemma source_neq_runtime:
  assumes "installed pf"
  shows "pathKey (runtimeFunctionsPath pf) \<noteq> pathKey (repoFunctionsPath cfg)"
proof
  assume "pathKey (runtimeFunctionsPath pf) = pathKey (repoFunctionsPath cfg)"
  then have "last (pathKey (metaDir pf) @ [''functions''])
      = last (pathKey (repoPath cfg) @ [''functions'', ''ts''])"
    by (simp only: runtimeFunctionsPath_key [OF assms] repoFunctionsPath_key)
  then show False by simp
qed

lemma runtimeFile_key:
  assumes "installed pf" and "plainName f"
  shows "pathKey (pathJoin [runtimeFunctionsPath pf, f]) = pathKey (runtimeFunctionsPath pf) @ [f]"
  using assms by (simp add: runtimeFunctionsPath_key path_simps)

section \<open>Lemmas: commands\<close>

lemma run_frame:
  "run pf cmd s = (r, t) \<Longrightarrow> spawned t = spawned s @ [cmd] \<and> console t = console s
     \<and> (\<exists>fs. t = s\<lparr>files := fs, spawned := spawned s @ [cmd]\<rparr>)"
  by (auto simp: run_def Let_def split: prod.splits spawn_result.splits if_splits)

lemma run_fsInv: "commandsTidy pf \<Longrightarrow> keeps (\<lambda>s. fsInv (files s)) (run pf cmd)"
  by (auto simp: keeps_def run_def Let_def commandsTidy_def
      split: prod.splits spawn_result.splits if_splits) (metis snd_conv)+

lemma keeps_run [keeps_rules]: "osBlind P \<Longrightarrow> keeps P (run pf cmd)"
  unfolding keeps_def by (metis run_frame osBlindD(3) prod.collapse)

lemma syncRepo_fsInv: "commandsTidy pf \<Longrightarrow> keeps (\<lambda>s. fsInv (files s)) (syncRepo pf cfg)"
  unfolding syncRepo_def fileExists_def by (intro keeps_rules run_fsInv)

lemma keeps_syncRepo [keeps_rules]: "osBlind P \<Longrightarrow> keeps P (syncRepo pf cfg)"
  unfolding syncRepo_def by (intro keeps_rules)

lemma run_Inr: "run pf cmd s = (Inr u, t) \<longleftrightarrow>
    (\<exists>out err fs. spawnProc pf cmd (files s) = (Exited 0 out err, fs)
       \<and> t = s\<lparr>files := fs, spawned := spawned s @ [cmd]\<rparr>)"
  by (auto simp: run_def Let_def split: prod.splits spawn_result.splits if_splits)

section \<open>Lemmas: the mirror\<close>

text \<open>The two loops, read as the loops of the directory contract.\<close>

lemma purge_loop:
  "purgeRuntimeDir root ns = forEach ns () (\<lambda>n _. if \<not> isFunctionFile n then ret ()
     else onFiles (fsRmForce (pathJoin [root, n])))"
  by (simp add: purgeRuntimeDir_def)

lemma copy_loop:
  "copyFunctions root src ns = forEach ns 0 (\<lambda>n k. if \<not> isFunctionFile n then ret k
     else andThen (reads (\<lambda>s. fsReadFile (files s) (pathJoin [src, n])))
       (\<lambda>b. andThen (onFiles (fsWriteFile (pathJoin [root, n]) b)) (\<lambda>_. ret (Suc k))))"
  unfolding copyFunctions_def fromFiles_def by (rule refl)

lemma selected_plain: "\<forall>f. isFunctionFile f \<longrightarrow> plainName f"
  by (simp add: isFunctionFile_plain)

lemmas purge_facts =
  rtdir.purge_Inr [where sel = isFunctionFile, OF _ selected_plain, folded purge_loop]
lemmas purge_total =
  rtdir.purge_total [where sel = isFunctionFile, OF _ selected_plain, folded purge_loop]
lemmas purge_source =
  rtdir.purge_source [where sel = isFunctionFile, OF _ selected_plain, folded purge_loop]
lemmas copy_facts =
  rtdir.copy_Inr [where sel = isFunctionFile and k = 0, OF _ selected_plain, folded copy_loop]
lemmas copy_total =
  rtdir.copy_total [where sel = isFunctionFile and k = 0, OF _ selected_plain, folded copy_loop]

definition copyPhase :: "string \<Rightarrow> string \<Rightarrow> ('a os_scheme, nat) act" where
  "copyPhase root src =
     andThen (fileExists src) (\<lambda>present.
       if present then andThen (fromFiles (\<lambda>fs. fsReaddir fs src)) (copyFunctions root src)
       else ret 0)"

lemma purge_source_stat:
  assumes "dirReady root src s" and "purgeRuntimeDir root ns s = (Inr u, t)" and "isFunctionFile f"
  shows "fsStat (files t) (pathKey src @ [f]) = fsStat (files s) (pathKey src @ [f])"
proof -
  have "plainName f" using assms(3) by (rule isFunctionFile_plain)
  moreover have "canonical src" using assms(1) by (simp add: dirReady_def)
  ultimately show ?thesis
    using fsReadFile_stat [OF purge_source [OF assms(1) _ assms(2)], of f] by (simp add: path_simps)
qed

lemma copyPhase_Inr:
  assumes ready: "dirReady root src s" and "copyPhase root src s = (Inr m, t)"
  shows "dirReady root src t"
    and "dirEntry root t f = (if isFunctionFile f \<and> fsStat (files s) (pathKey src @ [f]) \<noteq> None
           then fsStat (files s) (pathKey src @ [f]) else dirEntry root s f)"
    and "m = card {f. isFunctionFile f \<and> fsStat (files s) (pathKey src @ [f]) \<noteq> None}"
proof -
  have fsI: "fsInv (files s)" and can: "canonical src" using ready by (auto simp: dirReady_def)
  show "dirReady root src t"
    and "dirEntry root t f = (if isFunctionFile f \<and> fsStat (files s) (pathKey src @ [f]) \<noteq> None
           then fsStat (files s) (pathKey src @ [f]) else dirEntry root s f)"
    and "m = card {f. isFunctionFile f \<and> fsStat (files s) (pathKey src @ [f]) \<noteq> None}"
  proof (atomize (full), cases "fsExists (files s) src")
    case False
    then have "fsStat (files s) (pathKey src @ [g]) = None" for g
      using fsInv_parent [OF fsI, of "pathKey src" g] by (cases "fsStat (files s) (pathKey src @ [g])")
        (auto simp: fsExists_def)
    with False assms show "dirReady root src t \<and> dirEntry root t f =
        (if isFunctionFile f \<and> fsStat (files s) (pathKey src @ [f]) \<noteq> None
         then fsStat (files s) (pathKey src @ [f]) else dirEntry root s f)
       \<and> m = card {f. isFunctionFile f \<and> fsStat (files s) (pathKey src @ [f]) \<noteq> None}"
      by (simp add: copyPhase_def andThen_def ret_def)
  next
    case True
    let ?es = "fsEntries (files s) (pathKey src)"
    have c: "copyFunctions root src ?es s = (Inr m, t)"
      using assms(2) True by (auto simp: copyPhase_def fsReaddir_Inr elim!: andThen_okE)
    note cf = copy_facts [OF ready c]
    have mem: "g \<in> set ?es \<longleftrightarrow> fsStat (files s) (pathKey src @ [g]) \<noteq> None" for g
      by (rule fsEntries_iff [OF fsI])
    have isfile: "fsStat (files s) (pathKey src @ [g]) =
        Some (File (projr (fsReadFile (files s) (pathJoin [src, g]))))"
      if g: "g \<in> set ?es" "isFunctionFile g" for g
    proof -
      obtain b where "fsReadFile (files s) (pathJoin [src, g]) = Inr b" using cf g by blast
      then show ?thesis
        using can isFunctionFile_plain [OF g(2)] by (simp add: fsReadFile_Inr path_simps)
          (simp add: fsReadFile_def path_simps)
    qed
    have "m = length (filter isFunctionFile ?es)" using cf by simp
    also have "\<dots> = card (set (filter isFunctionFile ?es))"
      by (rule distinct_card [symmetric]) (simp add: fsEntries_distinct [OF fsI])
    also have "set (filter isFunctionFile ?es) =
        {f. isFunctionFile f \<and> fsStat (files s) (pathKey src @ [f]) \<noteq> None}"
      using mem by auto
    finally have m: "m = card {f. isFunctionFile f \<and> fsStat (files s) (pathKey src @ [f]) \<noteq> None}" .
    with cf isfile mem show "dirReady root src t \<and> dirEntry root t f =
        (if isFunctionFile f \<and> fsStat (files s) (pathKey src @ [f]) \<noteq> None
         then fsStat (files s) (pathKey src @ [f]) else dirEntry root s f)
       \<and> m = card {f. isFunctionFile f \<and> fsStat (files s) (pathKey src @ [f]) \<noteq> None}"
      by (auto simp: fun_eq_iff)
  qed
qed

lemma copyPhase_total:
  assumes ready: "dirReady root src s"
    and free: "\<forall>f. isFunctionFile f \<longrightarrow> dirEntry root s f \<noteq> Some Dir"
  shows "(\<exists>m t. copyPhase root src s = (Inr m, t)) \<longleftrightarrow>
    (\<forall>b. fsStat (files s) (pathKey src) \<noteq> Some (File b)) \<and>
    (\<forall>f. isFunctionFile f \<longrightarrow> fsStat (files s) (pathKey src @ [f]) \<noteq> Some Dir)"
proof -
  have fsI: "fsInv (files s)" and can: "canonical src" using ready by (auto simp: dirReady_def)
  have up: "fsStat (files s) (pathKey src) = Some Dir" if "fsStat (files s) (pathKey src @ [f]) = Some Dir" for f
    using fsInv_parent [OF fsI that] .
  consider "fsStat (files s) (pathKey src) = None" | b where "fsStat (files s) (pathKey src) = Some (File b)"
    | "fsStat (files s) (pathKey src) = Some Dir"
    by (metis node.exhaust option.exhaust)
  then show ?thesis
  proof cases
    case 1
    with up show ?thesis by (auto simp: copyPhase_def andThen_def fsExists_def ret_def)
  next
    case 2
    then show ?thesis by (simp add: copyPhase_def andThen_def fsExists_def fsReaddir_def)
  next
    case 3
    let ?es = "fsEntries (files s) (pathKey src)"
    have "copyPhase root src s = copyFunctions root src ?es s"
      using 3 by (simp add: copyPhase_def andThen_def fsExists_def fsReaddir_def)
    moreover have "(\<exists>b. fsReadFile (files s) (pathJoin [src, f]) = Inr b)
        \<longleftrightarrow> (\<exists>b. fsStat (files s) (pathKey src @ [f]) = Some (File b))" if "isFunctionFile f" for f
      using can isFunctionFile_plain [OF that] by (simp add: fsReadFile_Inr path_simps)
    ultimately have "(\<exists>m t. copyPhase root src s = (Inr m, t)) \<longleftrightarrow>
        (\<forall>f \<in> set ?es. isFunctionFile f \<longrightarrow> (\<exists>b. fsStat (files s) (pathKey src @ [f]) = Some (File b)))"
      using copy_total [OF ready, of ?es] free by auto
    also have "\<dots> \<longleftrightarrow> (\<forall>f. isFunctionFile f \<longrightarrow> fsStat (files s) (pathKey src @ [f]) \<noteq> Some Dir)"
      unfolding is_file_iff Ball_def fsEntries_iff [OF fsI] by auto
    finally show ?thesis using 3 by simp
  qed
qed

text \<open>The function as its three phases.\<close>

lemma sync_phases:
  "syncRuntimeFunctionsDir pf cfg src =
     andThen (ensureRuntimeDir pf) (\<lambda>_.
     andThen (fromFiles (\<lambda>fs. fsReaddir fs (runtimeFunctionsPath pf))) (\<lambda>old.
     andThen (purgeRuntimeDir (runtimeFunctionsPath pf) old) (\<lambda>_.
     andThen (copyPhase (runtimeFunctionsPath pf) src) (\<lambda>copied.
     andThen clearModuleCache (\<lambda>_.
     logInfo ''repo sync complete''
        [(''project'', project cfg), (''repo_functions_path'', src),
         (''runtime_functions_path'', runtimeFunctionsPath pf),
         (''files_copied'', showNat copied)])))))"
  unfolding syncRuntimeFunctionsDir_def ensureRuntimeDir_def copyPhase_def Let_def andThen_assoc
  by (rule refl)

lemma ensure_ready:
  assumes "installed pf" and "fsInv (files s)" and "canonical src"
    and "pathKey (runtimeFunctionsPath pf) \<noteq> pathKey src"
    and "ensureRuntimeDir pf s = (Inr u, t)"
  shows "dirReady (runtimeFunctionsPath pf) src t"
    and "dirEntry (runtimeFunctionsPath pf) t f = dirEntry (runtimeFunctionsPath pf) s f"
    and "t = s\<lparr>files := files t\<rparr>"
    and "fsStat (files t) x = fsStat (files s) x \<or> fsStat (files s) x = None \<and> fsStat (files t) x = Some Dir"
proof -
  obtain f1 where f1: "fsMkdir (runtimeFunctionsPath pf) (files s) = Inr f1" and t: "t = s\<lparr>files := f1\<rparr>"
    using assms(5) by (auto simp: ensureRuntimeDir_def onFiles_Inr)
  note mk = fsMkdir_Inr [OF assms(2) f1]
  show "dirReady (runtimeFunctionsPath pf) src t"
    using assms mk t runtimeFunctionsPath_key [OF assms(1)] by (simp add: dirReady_def)
  show "dirEntry (runtimeFunctionsPath pf) t f = dirEntry (runtimeFunctionsPath pf) s f"
    using fsMkdir_below [OF assms(2) f1] t by (simp add: dirEntry_def)
  show "t = s\<lparr>files := files t\<rparr>" using t by simp
  show "fsStat (files t) x = fsStat (files s) x \<or> fsStat (files s) x = None \<and> fsStat (files t) x = Some Dir"
    using mk(3) t by auto
qed

text \<open>Listing the directory and purging it: no function file is left, the rest is untouched.\<close>

lemma purge_all_Inr:
  assumes "dirReady root src s"
    and "purgeRuntimeDir root (fsEntries (files s) (pathKey root)) s = (Inr u, t)"
  shows "dirReady root src t"
    and "dirEntry root t f = (if isFunctionFile f then None else dirEntry root s f)"
proof -
  have "fsInv (files s)" using assms(1) by (simp add: dirReady_def)
  then have "f \<in> set (fsEntries (files s) (pathKey root)) \<longleftrightarrow> dirEntry root s f \<noteq> None"
    by (simp add: fsEntries_iff dirEntry_def)
  with purge_facts [OF assms] show "dirReady root src t"
    and "dirEntry root t f = (if isFunctionFile f then None else dirEntry root s f)" by auto
qed

lemma keeps_phases [keeps_rules]:
  assumes "osBlind P"
  shows "keeps P (purgeRuntimeDir root ns)" "keeps P (copyPhase root src)"
    "keeps P (ensureRuntimeDir pf)"
  unfolding purgeRuntimeDir_def copyPhase_def copyFunctions_def ensureRuntimeDir_def
  by (intro keeps_rules assms)+

text \<open>The part of the state the module loader owns.\<close>

definition loaderPart where
  "loaderPart s = (modules s, moduleVersion s, importTable s)"

lemma loaderPart_blind [simp]: "osBlind (\<lambda>s. loaderPart s = v)"
  by (simp add: osBlind_def loaderPart_def)

text \<open>The purge changes nothing but function files of its directory.\<close>

lemma purge_frame:
  assumes "canonical root" and x: "\<And>f. isFunctionFile f \<Longrightarrow> x \<noteq> pathKey root @ [f]"
  shows "keeps (\<lambda>s. fsStat (files s) x = v) (purgeRuntimeDir root ns :: ('a os_scheme, unit) act)"
proof -
  have rm: "keeps (\<lambda>s. fsStat (files s) x = v)
      (onFiles (fsRmForce (pathJoin [root, f])) :: ('a os_scheme, unit) act)"
    if f: "isFunctionFile f" for f
  proof -
    have "pathKey (pathJoin [root, f]) = pathKey root @ [f]"
      using assms(1) isFunctionFile_plain [OF f] by (simp add: path_simps)
    then have "fsStat fs x = fsStat fs' x" if "fsRmForce (pathJoin [root, f]) fs' = Inr fs" for fs fs'
      using fsRmForce_Inr(2) [OF that] x [OF f] by simp
    then show ?thesis by (auto simp: keeps_def onFiles_def split: sum.splits)
  qed
  have "keeps (\<lambda>s. fsStat (files s) x = v)
      ((if \<not> isFunctionFile f then ret ()
       else onFiles (fsRmForce (pathJoin [root, f]))) :: ('a os_scheme, unit) act)" for f
    using rm by (simp add: keeps_basic)
  then show ?thesis unfolding purgeRuntimeDir_def by (intro keeps_forEach) simp
qed

lemma clear_log_total:
  "andThen clearModuleCache (\<lambda>_. logInfo m a) s =
     (Inr (), s\<lparr>modules := [], moduleVersion := Suc (moduleVersion s),
               console := console s @ [Info m a]\<rparr>)"
  by (simp add: clearModuleCache_def logInfo_def modify_def andThen_def)

lemma sync_facts:
  assumes inst: "installed pf" and fsI: "fsInv (files s)" and can: "canonical src"
    and ne: "pathKey (runtimeFunctionsPath pf) \<noteq> pathKey src"
    and ok: "syncRuntimeFunctionsDir pf cfg src s = (Inr u, t)"
  shows "fsInv (files t)"
    and "dirEntry (runtimeFunctionsPath pf) t f =
           (if isFunctionFile f then fsStat (files s) (pathKey src @ [f])
            else dirEntry (runtimeFunctionsPath pf) s f)"
    and "fsStat (files t) (pathKey (runtimeFunctionsPath pf)) = Some Dir"
    and "modules t = [] \<and> moduleVersion t = Suc (moduleVersion s) \<and> importTable t = importTable s"
    and "isFunctionFile f \<Longrightarrow> dirEntry (runtimeFunctionsPath pf) t f \<noteq> Some Dir"
proof -
  let ?rt = "runtimeFunctionsPath pf"
  obtain s1 where e: "ensureRuntimeDir pf s = (Inr (), s1)"
    and ok1: "andThen (fromFiles (\<lambda>fs. fsReaddir fs ?rt)) (\<lambda>old. andThen (purgeRuntimeDir ?rt old) (\<lambda>_.
      andThen (copyPhase ?rt src) (\<lambda>copied. andThen clearModuleCache (\<lambda>_.
        logInfo ''repo sync complete''
          [(''project'', project cfg), (''repo_functions_path'', src),
           (''runtime_functions_path'', ?rt), (''files_copied'', showNat copied)])))) s1 = (Inr u, t)"
    using ok unfolding sync_phases by (rule andThen_okE) simp
  note ens = ensure_ready [OF inst fsI can ne e]
  have "fsReaddir (files s1) ?rt = Inr (fsEntries (files s1) (pathKey ?rt))"
    using ens(1) by (simp add: fsReaddir_Inr dirReady_def)
  with ok1 obtain s2 m s3 s4 where
    p: "purgeRuntimeDir ?rt (fsEntries (files s1) (pathKey ?rt)) s1 = (Inr (), s2)"
    and c: "copyPhase ?rt src s2 = (Inr m, s3)" and s4: "clearModuleCache s3 = (Inr (), s4)"
    and "logInfo ''repo sync complete''
          [(''project'', project cfg), (''repo_functions_path'', src),
           (''runtime_functions_path'', ?rt), (''files_copied'', showNat m)] s4 = (Inr u, t)"
    by (auto elim!: andThen_okE)
  then have l: "t = s3\<lparr>modules := [], moduleVersion := Suc (moduleVersion s3),
      console := console s4 @ [Info ''repo sync complete''
          [(''project'', project cfg), (''repo_functions_path'', src),
           (''runtime_functions_path'', ?rt), (''files_copied'', showNat m)]]\<rparr>"
    by (auto simp: clearModuleCache_def logInfo_def modify_def)
  note pg = purge_all_Inr [OF ens(1) p] and cp = copyPhase_Inr [OF _ c]
  have "loaderPart s3 = loaderPart s"
    using keepsD [OF keeps_phases(3) [OF loaderPart_blind] _ e]
      keepsD [OF keeps_phases(1) [OF loaderPart_blind] _ p]
      keepsD [OF keeps_phases(2) [OF loaderPart_blind] _ c] by metis
  with l show "modules t = [] \<and> moduleVersion t = Suc (moduleVersion s) \<and> importTable t = importTable s"
    by (simp add: loaderPart_def)
  have t: "files t = files s3" using l by simp
  show "fsInv (files t)" and "fsStat (files t) (pathKey (runtimeFunctionsPath pf)) = Some Dir"
    using cp(1) [OF pg(1)] t by (simp_all add: dirReady_def)
  have nodir: "fsStat (files s2) (pathKey src @ [f]) \<noteq> Some Dir" if "isFunctionFile f"
    using copyPhase_total [OF pg(1)] pg(2) c that by auto
  have src2: "fsStat (files s2) (pathKey src @ [f]) = fsStat (files s1) (pathKey src @ [f])" if "isFunctionFile f"
    using purge_source_stat [OF ens(1) p that] .
  show "dirEntry (runtimeFunctionsPath pf) t f =
           (if isFunctionFile f then fsStat (files s) (pathKey src @ [f])
            else dirEntry (runtimeFunctionsPath pf) s f)"
    using cp(2) [OF pg(1), of f] pg(2) [of f] ens(2) [of f] ens(4) [of "pathKey src @ [f]"] nodir src2 t
    by (auto simp: dirEntry_def)
  show "isFunctionFile f \<Longrightarrow> dirEntry (runtimeFunctionsPath pf) t f \<noteq> Some Dir"
    using cp(2) [OF pg(1), of f] pg(2) [of f] nodir t by (simp add: dirEntry_def)
qed

lemmas sync_Inr = sync_facts(1-4)
lemmas sync_no_dir = sync_facts(5)

text \<open>All that comes before the module cache is cleared.\<close>

definition refill :: "platform \<Rightarrow> string \<Rightarrow> ('a os_scheme, nat) act" where
  "refill pf src =
     andThen (ensureRuntimeDir pf) (\<lambda>_.
     andThen (fromFiles (\<lambda>fs. fsReaddir fs (runtimeFunctionsPath pf))) (\<lambda>old.
     andThen (purgeRuntimeDir (runtimeFunctionsPath pf) old) (\<lambda>_.
     copyPhase (runtimeFunctionsPath pf) src)))"

lemma sync_refill:
  "syncRuntimeFunctionsDir pf cfg src =
     andThen (refill pf src) (\<lambda>copied. andThen clearModuleCache (\<lambda>_.
     logInfo ''repo sync complete''
        [(''project'', project cfg), (''repo_functions_path'', src),
         (''runtime_functions_path'', runtimeFunctionsPath pf),
         (''files_copied'', showNat copied)]))"
  unfolding sync_phases refill_def andThen_assoc by (rule refl)

lemma keeps_refill [keeps_rules]: "osBlind P \<Longrightarrow> keeps P (refill pf src)"
  unfolding refill_def by (intro keeps_rules)

text \<open>A refresh that throws has not touched the module cache or its version.\<close>

lemma sync_Inl:
  assumes "syncRuntimeFunctionsDir pf cfg src s = (Inl e, t)"
  shows "loaderPart t = loaderPart s"
proof -
  have "refill pf src s = (Inl e, t)"
    using assms unfolding sync_refill
    by (cases "refill pf src s"; cases "fst (refill pf src s)")
      (auto simp: andThen_def clearModuleCache_def logInfo_def modify_def)
  then show ?thesis by (rule keepsD [OF keeps_refill [OF loaderPart_blind] refl])
qed

lemma keeps_fsInv [keeps_rules]:
  "keeps (\<lambda>s. fsInv (files s)) (onFiles (fsRmForce p))"
  "keeps (\<lambda>s. fsInv (files s)) (onFiles (fsWriteFile p b))"
  "keeps (\<lambda>s. fsInv (files s)) (onFiles (fsMkdir p))"
  "keeps (\<lambda>s. fsInv (files s)) (fromFiles h)" "keeps (\<lambda>s. fsInv (files s)) (fileExists p)"
  "keeps (\<lambda>s. fsInv (files s)) (logInfo m a)" "keeps (\<lambda>s. fsInv (files s)) (logError m a)"
  by (auto simp: keeps_def onFiles_def logInfo_def logError_def modify_def split: sum.splits
      intro: fsInv_rm fsInv_write fsMkdir_Inr(1))

lemma keeps_clear_fsInv [keeps_rules]: "keeps (\<lambda>s. fsInv (files s)) clearModuleCache"
  by (simp add: keeps_def clearModuleCache_def modify_def)

lemma sync_fsInv:
  assumes "commandsTidy pf"
  shows "keeps (\<lambda>s. fsInv (files s)) (syncRuntimeFunctionsDir pf cfg src)"
    and "keeps (\<lambda>s. fsInv (files s)) (syncRepoAndReload pf cfg)"
proof -
  show *: "keeps (\<lambda>s. fsInv (files s)) (syncRuntimeFunctionsDir pf cfg src)" for src
    unfolding sync_phases ensureRuntimeDir_def purgeRuntimeDir_def copyPhase_def copyFunctions_def
    by (intro keeps_rules)
  show "keeps (\<lambda>s. fsInv (files s)) (syncRepoAndReload pf cfg)"
    unfolding syncRepoAndReload_def by (intro keeps_rules syncRepo_fsInv assms *)
qed

lemma sync_total:
  assumes inst: "installed pf" and ready: "dirReady (runtimeFunctionsPath pf) src s"
    and apart: "\<And>f. isFunctionFile f \<Longrightarrow> pathKey src \<noteq> pathKey (runtimeFunctionsPath pf) @ [f]"
  shows "(\<exists>t. syncRuntimeFunctionsDir pf cfg src s = (Inr (), t)) \<longleftrightarrow>
    (\<forall>b. fsStat (files s) (pathKey src) \<noteq> Some (File b)) \<and>
    (\<forall>f. isFunctionFile f \<longrightarrow> dirEntry (runtimeFunctionsPath pf) s f \<noteq> Some Dir
       \<and> fsStat (files s) (pathKey src @ [f]) \<noteq> Some Dir)"
proof -
  let ?rt = "runtimeFunctionsPath pf" and ?old = "fsEntries (files s) (pathKey (runtimeFunctionsPath pf))"
  have fsI: "fsInv (files s)" and rtdir: "fsStat (files s) (pathKey ?rt) = Some Dir"
    and can: "canonical ?rt" using ready by (auto simp: dirReady_def)
  have "ensureRuntimeDir pf s = (Inr (), s)"
    using fsMkdir_present [OF fsI rtdir] by (simp add: ensureRuntimeDir_def onFiles_def)
  then have refill: "refill pf src s = andThen (purgeRuntimeDir ?rt ?old) (\<lambda>_. copyPhase ?rt src) s"
    using rtdir by (simp add: refill_def andThen_Inr fsReaddir_def)
  have all: "(\<exists>t. syncRuntimeFunctionsDir pf cfg src s = (Inr (), t)) \<longleftrightarrow> (\<exists>m t. refill pf src s = (Inr m, t))"
    unfolding sync_refill
    by (cases "refill pf src s"; cases "fst (refill pf src s)")
      (auto simp: andThen_def clearModuleCache_def logInfo_def modify_def)
  have mem: "f \<in> set ?old \<longleftrightarrow> dirEntry ?rt s f \<noteq> None" for f
    by (simp add: fsEntries_iff [OF fsI] dirEntry_def)
  show ?thesis
  proof (cases "\<exists>s2. purgeRuntimeDir ?rt ?old s = (Inr (), s2)")
    case False
    then have "\<not> (\<forall>f \<in> set ?old. isFunctionFile f \<longrightarrow> dirEntry ?rt s f \<noteq> Some Dir)"
      using purge_total [OF ready, of ?old] by auto
    moreover have "\<nexists>m t. refill pf src s = (Inr m, t)"
      unfolding refill using False by (auto elim!: andThen_okE)
    ultimately show ?thesis unfolding all by blast
  next
    case True
    then obtain s2 where p: "purgeRuntimeDir ?rt ?old s = (Inr (), s2)" by blast
    note pg = purge_all_Inr [OF ready p]
    have nodir: "dirEntry ?rt s f \<noteq> Some Dir" if "isFunctionFile f" for f
      using purge_total [OF ready, of ?old] p mem [of f] that by auto
    have "fsStat (files s2) (pathKey src) = fsStat (files s) (pathKey src)"
      using keepsD [OF purge_frame [OF can apart] refl p] by simp
    then show ?thesis
      unfolding all refill andThen_Inr [where m = "purgeRuntimeDir ?rt ?old", OF p]
      using copyPhase_total [OF pg(1)] pg(2) purge_source_stat [OF ready p] nodir by auto
  qed
qed

section \<open>Lemmas: listing the functions\<close>

lemma list_loop:
  "forEach es ns (\<lambda>entry names. if \<not> isFunctionFile entry then ret names
      else ret (setAdd (pathBasename entry ''.ts'') names)) s
   = (Inr (fold setAdd (map (\<lambda>e. pathBasename e ''.ts'') (filter isFunctionFile es)) ns), s)"
  by (induction es arbitrary: ns) (auto simp: ret_def andThen_def)

lemma list_names:
  "(\<lambda>e. pathBasename e ''.ts'') ` {e \<in> E. isFunctionFile e}
     = {n. functionName n \<and> n @ ''.ts'' \<in> E}"
  by (force simp: isFunctionFile_name pathBasename_ts image_iff)

lemma listFunctions_outcome:
  assumes "fsInv (files s)"
  shows "(case listFunctions pf s of
      (Inr names, t) \<Rightarrow> t = s \<and> sorted names \<and> distinct names \<and>
        set names = {n. functionName n \<and> dirEntry (runtimeFunctionsPath pf) s (n @ ''.ts'') \<noteq> None}
    | (Inl e, t) \<Rightarrow> t = s \<and> (\<exists>b. fsStat (files s) (pathKey (runtimeFunctionsPath pf)) = Some (File b)))"
proof -
  let ?rt = "runtimeFunctionsPath pf"
  consider "fsStat (files s) (pathKey ?rt) = None" | b where "fsStat (files s) (pathKey ?rt) = Some (File b)"
    | "fsStat (files s) (pathKey ?rt) = Some Dir"
    by (metis node.exhaust option.exhaust)
  then show ?thesis
  proof cases
    case 1
    have "dirEntry ?rt s f = None" for f
      using 1 fsInv_parent [OF assms, of "pathKey ?rt" f]
      by (cases "dirEntry ?rt s f") (auto simp: dirEntry_def)
    with 1 show ?thesis
      by (simp add: listFunctions_def Let_def andThen_def fsExists_def ret_def)
  next
    case 2
    then show ?thesis
      by (simp add: listFunctions_def Let_def andThen_def fsExists_def fsReaddir_def)
  next
    case 3
    let ?es = "fsEntries (files s) (pathKey ?rt)"
    let ?ns = "newSet (map (\<lambda>e. pathBasename e ''.ts'') (filter isFunctionFile ?es))"
    have "listFunctions pf s = (Inr (sort ?ns), s)"
      using 3 by (simp add: listFunctions_def Let_def andThen_def fsExists_def fsReaddir_def
          list_loop newSet_def ret_def)
    moreover have "set ?ns = {n. functionName n \<and> dirEntry ?rt s (n @ ''.ts'') \<noteq> None}"
      using list_names [of "set ?es"] by (simp add: fsEntries_iff [OF assms] dirEntry_def)
    ultimately show ?thesis by simp
  qed
qed

lemma listFunctions_Inr:
  assumes "fsInv (files s)" and "listFunctions pf s = (Inr names, t)"
  shows "t = s" "sorted names" "distinct names"
    "n \<in> set names \<longleftrightarrow> functionName n \<and> dirEntry (runtimeFunctionsPath pf) s (n @ ''.ts'') \<noteq> None"
  using listFunctions_outcome [OF assms(1), of pf] assms(2) by auto

lemma keeps_listFunctions [keeps_rules]: "osBlind P \<Longrightarrow> keeps P (listFunctions pf)"
  unfolding listFunctions_def Let_def by (intro keeps_rules)

section \<open>The repository's URL, read back\<close>

text \<open>
  How a URL's authority is read: it ends at the first slash, its host follows the last \<^verbatim>\<open>@\<close>,
  and the user ends at the first colon. The rest is the path.
\<close>

definition urlAuthority :: "string \<Rightarrow> string \<Rightarrow> string" where
  "urlAuthority protocol url = takeWhile (\<lambda>c. c \<noteq> CHR ''/'') (drop (length protocol + 2) url)"

definition urlPath :: "string \<Rightarrow> string \<Rightarrow> string" where
  "urlPath protocol url = dropWhile (\<lambda>c. c \<noteq> CHR ''/'') (drop (length protocol + 2) url)"

definition readCredentials :: "string \<Rightarrow> string \<times> string \<times> string" where
  "readCredentials auth =
     (let host = rev (takeWhile (\<lambda>c. c \<noteq> CHR ''@'') (rev auth));
          info = take (length auth - length host - 1) auth;
          user = takeWhile (\<lambda>c. c \<noteq> CHR '':'') info
      in (pctDecode user, pctDecode (drop (length user + 1) info), host))"

lemma takeWhile_until: "c \<notin> set a \<Longrightarrow> takeWhile (\<lambda>d. d \<noteq> c) (a @ c # b) = a"
  by (induction a) auto

lemma dropWhile_until: "c \<notin> set a \<Longrightarrow> dropWhile (\<lambda>d. d \<noteq> c) (a @ c # b) = c # b"
  by (induction a) auto

lemma readCredentials_parts:
  assumes "CHR '':'' \<notin> set user" and "CHR ''@'' \<notin> set host"
  shows "readCredentials (user @ '':'' @ token @ ''@'' @ host) = (pctDecode user, pctDecode token, host)"
proof -
  have "takeWhile (\<lambda>c. c \<noteq> CHR ''@'') (rev (user @ '':'' @ token @ ''@'' @ host)) = rev host"
    using takeWhile_until [of "CHR ''@''" "rev host"] assms(2) by simp
  then show ?thesis
    using takeWhile_until [OF assms(1)] by (simp add: readCredentials_def Let_def)
qed

lemma repoURL_read:
  assumes "gitToken cfg \<noteq> []" and "parseURL pf (vcsBaseURL cfg) = Inr (protocol, host)"
    and "CHR ''@'' \<notin> set host" and "CHR ''/'' \<notin> set host"
  defines "owner \<equiv> if gitUser cfg = [] then ''git'' else gitUser cfg"
  shows "\<exists>url. repoURL pf cfg = Inr url
    \<and> readCredentials (urlAuthority protocol url) = (owner, gitToken cfg, host)
    \<and> urlPath protocol url = ''/'' @ owner @ ''/'' @ project cfg"
proof -
  let ?auth = "encodeGitPart owner @ '':'' @ encodeGitPart (gitToken cfg) @ ''@'' @ host"
  let ?path = "''/'' @ owner @ ''/'' @ project cfg"
  have url: "repoURL pf cfg = Inr (protocol @ ''//'' @ ?auth @ ?path)"
    using assms(1,2) by (simp add: repoURL_def owner_def Let_def)
  have free: "CHR ''/'' \<notin> set ?auth" using assms(4) encodeGitPart_delimiters by simp
  have "urlAuthority protocol (protocol @ ''//'' @ ?auth @ ?path) = ?auth"
    using takeWhile_until [OF free] by (simp add: urlAuthority_def)
  moreover have "urlPath protocol (protocol @ ''//'' @ ?auth @ ?path) = ?path"
    using dropWhile_until [OF free] by (simp add: urlPath_def)
  moreover have "readCredentials ?auth = (owner, gitToken cfg, host)"
    by (simp only: readCredentials_parts [OF encodeGitPart_delimiters(2) assms(3)] encodeGitPart_decode)
  ultimately show ?thesis using url by metis
qed

end
