(* ===== verification/Rt_Loader.thy ===== *)
theory Rt_Loader
  imports Rt_Sync
begin

text \<open>
  \<^verbatim>\<open>runtimes/ts/pkg/functions.ts\<close>, second part: finding the file of a function and loading
  its module through the cache. The platform's module loader imports a URL once and gives
  the same outcome ever after, so the runtime appends its cache version to the URL; the
  lemmas show that this makes the cached loader equivalent to one without a cache.
\<close>

section \<open>The URL a module is imported from\<close>

text \<open>\<^verbatim>\<open>pathToFileURL(p).href\<close>: the characters a URL path may hold stay, others are escaped.\<close>

definition urlPathChar :: "char \<Rightarrow> bool" where
  "urlPathChar c =
     (let n = (of_char c :: nat) in
       33 \<le> n \<and> n \<le> 126
       \<and> c \<notin> set [CHR 0x22, CHR ''#'', CHR ''%'', CHR ''<'', CHR ''>'', CHR ''?'', CHR 0x5C,
                   CHR ''^'', CHR 0x60, CHR ''{'', CHR ''}''])"

definition pathToFileURL :: "string \<Rightarrow> string" where
  "pathToFileURL p = ''file://'' @ concat (map (\<lambda>c. if urlPathChar c then [c] else pctEncode c) p)"

definition importURL :: "string \<Rightarrow> nat \<Rightarrow> string" where
  "importURL p version = pathToFileURL p @ ''?v='' @ showNat version"

section \<open>Loading a module\<close>

definition notFoundError :: "platform \<Rightarrow> string \<Rightarrow> js_error" where
  "notFoundError pf name =
     JsError ''Error'' (''function '' @ [CHR 0x27] @ name @ [CHR 0x27] @ '' not found in ''
       @ runtimeFunctionsPath pf)"

definition resolveFunctionFile :: "platform \<Rightarrow> string \<Rightarrow> ('a os_scheme, string) act" where
  "resolveFunctionFile pf name =
     (let p = pathJoin [runtimeFunctionsPath pf, name @ ''.ts''] in
      andThen (fileExists p) (\<lambda>present.
        if present then ret p else throw (notFoundError pf name)))"

text \<open>\<^verbatim>\<open>import(url)\<close>: the outcome of the first evaluation is kept for the URL.\<close>

definition importModule ::
    "platform \<Rightarrow> string \<Rightarrow> string \<Rightarrow> ('a fn_state_scheme, loaded_module) act" where
  "importModule pf url p s =
     (case mapGet (importTable s) url of
        Some r \<Rightarrow> (r, s)
      | None \<Rightarrow>
          (case fsReadFile (files s) p of
             Inl e \<Rightarrow> (Inl e, s)
           | Inr content \<Rightarrow>
               (let r = evalModule pf content
                in (r, s\<lparr>importTable := mapSet url r (importTable s)\<rparr>))))"

definition loadModule :: "platform \<Rightarrow> string \<Rightarrow> ('a fn_state_scheme, loaded_module) act" where
  "loadModule pf name =
     andThen (gets (\<lambda>s. mapGet (modules s) name)) (\<lambda>cached.
       case cached of
         Some m \<Rightarrow> ret m
       | None \<Rightarrow>
           andThen (resolveFunctionFile pf name) (\<lambda>filePath.
           andThen (gets (\<lambda>s. importURL filePath (moduleVersion s))) (\<lambda>url.
           andThen (importModule pf url filePath) (\<lambda>md.
           andThen (modify (\<lambda>s. s\<lparr>modules := mapSet name md (modules s)\<rparr>)) (\<lambda>_.
           ret md)))))"

section \<open>The reference: loading without a cache\<close>

definition functionPath :: "platform \<Rightarrow> string \<Rightarrow> string" where
  "functionPath pf name = pathJoin [runtimeFunctionsPath pf, name @ ''.ts'']"

definition loadUncached :: "platform \<Rightarrow> fs \<Rightarrow> string \<Rightarrow> js_error + loaded_module" where
  "loadUncached pf fs name =
     (if \<not> fsExists fs (functionPath pf name) then Inl (notFoundError pf name)
      else (case fsReadFile fs (functionPath pf name) of
              Inl e \<Rightarrow> Inl e
            | Inr content \<Rightarrow> evalModule pf content))"

section \<open>Lemmas: distinct files and versions have distinct URLs\<close>

lemma urlPathChar_not: "\<not> urlPathChar CHR ''%''" "\<not> urlPathChar CHR ''?''"
  by (simp_all add: urlPathChar_def)

lemma pathToFileURL_decode: "pctDecode (drop 7 (pathToFileURL p)) = p"
  unfolding pathToFileURL_def using pctDecode_with [where keep = urlPathChar, OF urlPathChar_not(1)] by simp

lemma pathToFileURL_free: "CHR ''?'' \<notin> set (pathToFileURL p)"
proof -
  have "CHR ''?'' \<notin> set (if urlPathChar c then [c] else pctEncode c)" for c
    using urlPathChar_not(2) pctEncode_chars [of "CHR ''?''" c]
    by (auto simp: uriUnreserved_def)
  then have "CHR ''?'' \<notin> set (concat (map (\<lambda>c. if urlPathChar c then [c] else pctEncode c) p))"
    by (induction p) simp_all
  then show ?thesis by (simp add: pathToFileURL_def)
qed

lemma importURL_inject: "importURL p v = importURL q w \<longleftrightarrow> p = q \<and> v = w"
proof
  assume eq: "importURL p v = importURL q w"
  have split: "takeWhile (\<lambda>c. c \<noteq> CHR ''?'') (importURL r n) = pathToFileURL r"
    "dropWhile (\<lambda>c. c \<noteq> CHR ''?'') (importURL r n) = ''?v='' @ showNat n" for r n
    using takeWhile_until [OF pathToFileURL_free, of r] dropWhile_until [OF pathToFileURL_free, of r]
    by (simp_all add: importURL_def)
  from eq have "pathToFileURL p = pathToFileURL q" "''?v='' @ showNat v = ''?v='' @ showNat w"
    by (metis split(1), metis split(2))
  then show "p = q \<and> v = w" by (metis pathToFileURL_decode same_append_eq showNat_inject)
qed simp

section \<open>The contract of a module source\<close>

text \<open>
  What the callers of the loader rely on: as long as the state is \<open>good\<close>, loading gives what
  the view of the state promises and leaves the view as it is.
\<close>

locale module_source =
  fixes load :: "string \<Rightarrow> ('s, 'm) act"
    and view :: "'s \<Rightarrow> string \<Rightarrow> js_error + 'm"
    and good :: "'s \<Rightarrow> bool"
  assumes load_view: "good s \<Longrightarrow> fst (load n s) = view s n"
    and load_good: "good s \<Longrightarrow> good (snd (load n s))"
    and load_same: "good s \<Longrightarrow> view (snd (load n s)) = view s"
begin

text \<open>Loading any modules, whether or not they load, changes no later outcome.\<close>

lemma loads_then_load:
  assumes "good s"
  shows "good (fold (\<lambda>n s. snd (load n s)) ns s)
    \<and> fst (load n (fold (\<lambda>n s. snd (load n s)) ns s)) = view s n"
  using assms
proof (induction ns arbitrary: s)
  case Nil
  then show ?case by (simp add: load_view)
next
  case (Cons m ns)
  from Cons.IH [OF load_good [OF Cons.prems]] load_same [OF Cons.prems] show ?case by simp
qed

lemma load_cases:
  assumes "good s" and "load n s = (r, t)"
  shows "r = view s n" "good t" "view t = view s"
  using load_view [OF assms(1), of n] load_good [OF assms(1), of n] load_same [OF assms(1), of n]
    assms(2) by simp_all

end

section \<open>The cached loader honours it\<close>

definition loaderInv :: "'a fn_state_scheme \<Rightarrow> bool" where
  "loaderInv s \<longleftrightarrow> (\<forall>url r. mapGet (importTable s) url = Some r \<longrightarrow>
     (\<exists>p v. url = importURL p v \<and> v \<le> moduleVersion s))"

definition loaderFresh :: "platform \<Rightarrow> 'a fn_state_scheme \<Rightarrow> bool" where
  "loaderFresh pf s \<longleftrightarrow>
     (\<forall>p r. mapGet (importTable s) (importURL p (moduleVersion s)) = Some r \<longrightarrow>
        (\<exists>b. fsReadFile (files s) p = Inr b \<and> r = evalModule pf b)) \<and>
     (\<forall>name m. mapGet (modules s) name = Some m \<longrightarrow> loadUncached pf (files s) name = Inr m)"

lemma resolve_simps:
  "resolveFunctionFile pf name s =
     (if fsExists (files s) (functionPath pf name) then (Inr (functionPath pf name), s)
      else (Inl (notFoundError pf name), s))"
  by (simp add: resolveFunctionFile_def Let_def andThen_def ret_def throw_def functionPath_def)

text \<open>The loader, unfolded at a state.\<close>

lemma loadModule_cases:
  "loadModule pf name s =
     (case mapGet (modules s) name of
        Some m \<Rightarrow> (Inr m, s)
      | None \<Rightarrow>
          if \<not> fsExists (files s) (functionPath pf name) then (Inl (notFoundError pf name), s)
          else (case importModule pf (importURL (functionPath pf name) (moduleVersion s))
                       (functionPath pf name) s of
                  (Inl e, t) \<Rightarrow> (Inl e, t)
                | (Inr m, t) \<Rightarrow> (Inr m, t\<lparr>modules := mapSet name m (modules t)\<rparr>)))"
  by (auto simp: loadModule_def andThen_def gets_def modify_def ret_def resolve_simps
      split: option.splits prod.splits sum.splits)

lemma importModule_frame:
  "importModule pf url p s = (r, t) \<Longrightarrow>
     files t = files s \<and> modules t = modules s \<and> moduleVersion t = moduleVersion s
     \<and> (importTable t = importTable s \<or> importTable t = mapSet url r (importTable s))
     \<and> fn_state.more t = fn_state.more s \<and> console t = console s \<and> spawned t = spawned s"
  by (auto simp: importModule_def Let_def split: option.splits sum.splits)

lemma loadModule_frame:
  assumes "loadModule pf name s = (r, t)"
  shows "files t = files s" "moduleVersion t = moduleVersion s" "console t = console s"
    "spawned t = spawned s" "fn_state.more t = fn_state.more s"
  using assms by (auto simp: loadModule_cases dest!: importModule_frame
      split: option.splits prod.splits sum.splits if_splits)

lemma loadModule_table:
  assumes "loadModule pf name s = (r, t)" and "mapGet (importTable t) url = Some x"
  shows "mapGet (importTable s) url = Some x
    \<or> url = importURL (functionPath pf name) (moduleVersion s)"
  using assms by (auto simp: loadModule_cases mapGet_set dest!: importModule_frame
      split: option.splits prod.splits sum.splits if_splits)

lemma loaderInv_load:
  assumes "loaderInv s" and "loadModule pf name s = (r, t)"
  shows "loaderInv t"
  using assms(1) loadModule_table [OF assms(2)] loadModule_frame(2) [OF assms(2)]
  unfolding loaderInv_def by (metis order_refl)

lemma importModule_fresh:
  assumes "loaderFresh pf s" and "fsExists (files s) p"
    and "importModule pf (importURL p (moduleVersion s)) p s = (r, t)"
  shows "r = (case fsReadFile (files s) p of Inl e \<Rightarrow> Inl e | Inr b \<Rightarrow> evalModule pf b)"
    and "loaderFresh pf t"
proof -
  show "r = (case fsReadFile (files s) p of Inl e \<Rightarrow> Inl e | Inr b \<Rightarrow> evalModule pf b)"
    using assms by (fastforce simp: importModule_def loaderFresh_def Let_def
        split: option.splits sum.splits)
  show "loaderFresh pf t"
  proof (cases "mapGet (importTable s) (importURL p (moduleVersion s))")
    case (Some x)
    with assms(1,3) show ?thesis by (simp add: importModule_def)
  next
    case None
    show ?thesis
    proof (cases "fsReadFile (files s) p")
      case (Inl e)
      with None assms(1,3) show ?thesis by (simp add: importModule_def)
    next
      case (Inr b)
      with None assms(3) have "t = s\<lparr>importTable :=
          mapSet (importURL p (moduleVersion s)) (evalModule pf b) (importTable s)\<rparr>"
        by (auto simp: importModule_def Let_def)
      with assms(1) Inr show ?thesis
        by (auto simp: loaderFresh_def mapGet_set importURL_inject split: if_splits)
    qed
  qed
qed

lemma loadModule_fresh:
  assumes fresh: "loaderFresh pf s" and load: "loadModule pf name s = (r, t)"
  shows "r = loadUncached pf (files s) name" and "loaderFresh pf t"
proof -
  let ?p = "functionPath pf name"
  have "r = loadUncached pf (files s) name \<and> loaderFresh pf t"
  proof (cases "mapGet (modules s) name")
    case (Some m)
    with fresh load show ?thesis by (simp add: loadModule_cases loaderFresh_def)
  next
    case None
    show ?thesis
    proof (cases "fsExists (files s) ?p")
      case False
      with None fresh load show ?thesis by (simp add: loadModule_cases loadUncached_def)
    next
      case True
      obtain x u where im: "importModule pf (importURL ?p (moduleVersion s)) ?p s = (x, u)"
        by (cases "importModule pf (importURL ?p (moduleVersion s)) ?p s")
      note im' = importModule_fresh [OF fresh True im]
      have x: "x = loadUncached pf (files s) name" using im'(1) True by (simp add: loadUncached_def)
      show ?thesis
      proof (cases x)
        case (Inl e)
        with load None True im have "r = Inl e \<and> t = u" by (simp add: loadModule_cases)
        with im'(2) x Inl show ?thesis by simp
      next
        case (Inr m)
        have "files u = files s" using importModule_frame [OF im] by simp
        then have "loaderFresh pf (u\<lparr>modules := mapSet name m (modules u)\<rparr>)"
          using im'(2) x Inr by (auto simp: loaderFresh_def mapGet_set)
        moreover have "r = Inr m \<and> t = u\<lparr>modules := mapSet name m (modules u)\<rparr>"
          using load None True im Inr by (simp add: loadModule_cases)
        ultimately show ?thesis using x Inr by simp
      qed
    qed
  qed
  then show "r = loadUncached pf (files s) name" and "loaderFresh pf t" by blast+
qed

interpretation cached: module_source "loadModule pf" "\<lambda>s. loadUncached pf (files s)" "loaderFresh pf"
  for pf
proof
  fix s :: "'a fn_state_scheme" and n
  assume s: "loaderFresh pf s"
  obtain r t where l: "loadModule pf n s = (r, t)" by (cases "loadModule pf n s")
  show "fst (loadModule pf n s) = loadUncached pf (files s) n"
    and "loaderFresh pf (snd (loadModule pf n s))"
    using loadModule_fresh [OF s l] l by simp_all
  show "loadUncached pf (files (snd (loadModule pf n s))) = loadUncached pf (files s)"
    using loadModule_frame(1) [OF l] l by simp
qed

section \<open>A refresh makes the loader good again\<close>

lemma refresh_fresh:
  assumes "loaderInv s" and "loaderPart t = ([], Suc (moduleVersion s), importTable s)"
  shows "loaderFresh pf t" and "loaderInv t"
proof -
  have t: "modules t = []" "moduleVersion t = Suc (moduleVersion s)" "importTable t = importTable s"
    using assms(2) by (simp_all add: loaderPart_def)
  have "mapGet (importTable t) (importURL p (moduleVersion t)) = None" for p
    using assms(1) t by (auto simp: loaderInv_def importURL_inject intro: classical)
  with t show "loaderFresh pf t" by (simp add: loaderFresh_def)
  show "loaderInv t" using assms(1) t unfolding loaderInv_def by (metis le_SucI)
qed

section \<open>Freshness of a refreshed runtime\<close>

lemma functionPath_key:
  "installed pf \<Longrightarrow> functionName name \<Longrightarrow>
     pathKey (functionPath pf name) = pathKey (runtimeFunctionsPath pf) @ [name @ ''.ts'']"
  by (simp add: functionPath_def runtimeFile_key functionName_plain)

lemma loadUncached_entry:
  assumes "installed pf" and "functionName name"
  shows "loadUncached pf (files s) name =
    (case dirEntry (runtimeFunctionsPath pf) s (name @ ''.ts'') of
       None \<Rightarrow> Inl (notFoundError pf name)
     | Some Dir \<Rightarrow> Inl (fsError ''EISDIR: illegal operation on a directory'' ''read'' (functionPath pf name))
     | Some (File b) \<Rightarrow> evalModule pf b)"
  by (simp add: loadUncached_def fsExists_def fsReadFile_def functionPath_key [OF assms] dirEntry_def
      split: option.splits node.splits)

lemma sync_serves:
  assumes inst: "installed pf" and fsI: "fsInv (files s)" and inv: "loaderInv s"
    and ok: "syncRuntimeFunctionsDir pf cfg (repoFunctionsPath cfg) s = (Inr u, t)"
  shows "loaderFresh pf t" and "loaderInv t"
    and "functionName name \<Longrightarrow> loadUncached pf (files t) name =
      (case fsStat (files s) (pathKey (repoFunctionsPath cfg) @ [name @ ''.ts'']) of
         Some (File b) \<Rightarrow> evalModule pf b
       | _ \<Rightarrow> Inl (notFoundError pf name))"
proof -
  note sy = sync_Inr [OF inst fsI repoFunctionsPath_key(1) source_neq_runtime [OF inst] ok]
  have "loaderPart t = ([], Suc (moduleVersion s), importTable s)" using sy(4) by (simp add: loaderPart_def)
  from refresh_fresh [OF inv this] show "loaderFresh pf t" "loaderInv t" .
  assume name: "functionName name"
  have nodir: "dirEntry (runtimeFunctionsPath pf) t (name @ ''.ts'') \<noteq> Some Dir"
    using sync_no_dir [OF inst fsI repoFunctionsPath_key(1) source_neq_runtime [OF inst] ok] name by simp
  then show "loadUncached pf (files t) name =
      (case fsStat (files s) (pathKey (repoFunctionsPath cfg) @ [name @ ''.ts'']) of
         Some (File b) \<Rightarrow> evalModule pf b
       | _ \<Rightarrow> Inl (notFoundError pf name))"
    using sy(2) [of "name @ ''.ts''"] name
    by (auto simp: loadUncached_entry [OF inst name] split: option.splits node.splits)
qed

end
