(* ===== verification/Rt_Steps.thy ===== *)
theory Rt_Steps
  imports Rt_Loader
begin

text \<open>
  A refresh and a load, cut at their \<^verbatim>\<open>await\<close>s. While a task waits, other tasks run, so each
  task is a small machine here: its program point names the operation it is about to perform,
  and one step performs it and the code up to the next \<^verbatim>\<open>await\<close>. Run without interruption, the
  machines are the functions of \<open>Rt_Sync\<close> and \<open>Rt_Loader\<close>.
\<close>

section \<open>A refresh in steps\<close>

datatype refresh_pc =
    Checking | Fetching | ResettingMain | ResettingMaster | Cloning
  | MakingDir | Listing | Removing "string list" | CheckingSource | ListingSource
  | Reading "string list" nat | Writing string bytes "string list" nat
  | Clearing nat | Completed | Aborted js_error

text \<open>An operation that throws ends the refresh.\<close>

fun proceed :: "(js_error + 'a) \<times> 's \<Rightarrow> ('a \<Rightarrow> refresh_pc) \<Rightarrow> refresh_pc \<times> 's" where
  "proceed (Inl e, t) next_pc = (Aborted e, t)"
| "proceed (Inr a, t) next_pc = (next_pc a, t)"

text \<open>The heads of the two loops, given the entries that are left and are function files.\<close>

definition removing :: "string list \<Rightarrow> refresh_pc" where
  "removing entries = (if entries = [] then CheckingSource else Removing entries)"

definition reading :: "string list \<Rightarrow> nat \<Rightarrow> refresh_pc" where
  "reading entries copied = (if entries = [] then Clearing copied else Reading entries copied)"

fun refreshStep ::
    "platform \<Rightarrow> settings \<Rightarrow> refresh_pc \<Rightarrow> 'a fn_state_scheme \<Rightarrow> refresh_pc \<times> 'a fn_state_scheme" where
  "refreshStep pf cfg Checking s =
     (if fsExists (files s) (repoPath cfg) then Fetching else Cloning, s)"
| "refreshStep pf cfg Fetching s = proceed (run pf (gitFetch cfg) s) (\<lambda>_. ResettingMain)"
| "refreshStep pf cfg ResettingMain s =
     (case run pf (gitReset cfg ''origin/main'') s of
        (Inl e, t) \<Rightarrow> (ResettingMaster, t)
      | (Inr _, t) \<Rightarrow> (MakingDir, t))"
| "refreshStep pf cfg ResettingMaster s =
     proceed (run pf (gitReset cfg ''origin/master'') s) (\<lambda>_. MakingDir)"
| "refreshStep pf cfg Cloning s =
     proceed (andThen (fromResult (repoURL pf cfg)) (\<lambda>url. run pf (gitClone cfg url)) s) (\<lambda>_. MakingDir)"
| "refreshStep pf cfg MakingDir s =
     proceed (onFiles (fsMkdir (runtimeFunctionsPath pf)) s) (\<lambda>_. Listing)"
| "refreshStep pf cfg Listing s =
     proceed (fromFiles (\<lambda>fs. fsReaddir fs (runtimeFunctionsPath pf)) s)
       (\<lambda>entries. removing (filter isFunctionFile entries))"
| "refreshStep pf cfg (Removing []) s = (CheckingSource, s)"
| "refreshStep pf cfg (Removing (entry # entries)) s =
     proceed (onFiles (fsRmForce (pathJoin [runtimeFunctionsPath pf, entry])) s) (\<lambda>_. removing entries)"
| "refreshStep pf cfg CheckingSource s =
     (if fsExists (files s) (repoFunctionsPath cfg) then ListingSource else Clearing 0, s)"
| "refreshStep pf cfg ListingSource s =
     proceed (fromFiles (\<lambda>fs. fsReaddir fs (repoFunctionsPath cfg)) s)
       (\<lambda>entries. reading (filter isFunctionFile entries) 0)"
| "refreshStep pf cfg (Reading [] copied) s = (Clearing copied, s)"
| "refreshStep pf cfg (Reading (entry # entries) copied) s =
     proceed (fromFiles (\<lambda>fs. fsReadFile fs (pathJoin [repoFunctionsPath cfg, entry])) s)
       (\<lambda>content. Writing entry content entries copied)"
| "refreshStep pf cfg (Writing entry content entries copied) s =
     proceed (onFiles (fsWriteFile (pathJoin [runtimeFunctionsPath pf, entry]) content) s)
       (\<lambda>_. reading entries (Suc copied))"
| "refreshStep pf cfg (Clearing copied) s =
     proceed (andThen clearModuleCache (\<lambda>_.
       logInfo ''repo sync complete''
         [(''project'', project cfg), (''repo_functions_path'', repoFunctionsPath cfg),
          (''runtime_functions_path'', runtimeFunctionsPath pf), (''files_copied'', showNat copied)]) s)
       (\<lambda>_. Completed)"
| "refreshStep pf cfg Completed s = (Completed, s)"
| "refreshStep pf cfg (Aborted e) s = (Aborted e, s)"

text \<open>The code before the first \<^verbatim>\<open>await\<close>.\<close>

definition refreshBegin :: "settings \<Rightarrow> 'a fn_state_scheme \<Rightarrow> 'a fn_state_scheme" where
  "refreshBegin cfg s = snd (logInfo ''syncing repo''
     [(''project'', project cfg),
      (''repo_url'', vcsBaseURL cfg @ ''/'' @ gitUser cfg @ ''/'' @ project cfg)] s)"

fun refreshDone :: "refresh_pc \<Rightarrow> bool" where
  "refreshDone Completed = True"
| "refreshDone (Aborted e) = True"
| "refreshDone _ = False"

section \<open>A refresh ends\<close>

text \<open>Every step comes closer to the end, whatever the state is: no interruption can prevent it.\<close>

fun refreshRank :: "refresh_pc \<Rightarrow> nat \<times> nat" where
  "refreshRank Checking = (11, 0)"
| "refreshRank Fetching = (10, 0)"
| "refreshRank ResettingMain = (9, 0)"
| "refreshRank ResettingMaster = (8, 0)"
| "refreshRank Cloning = (8, 0)"
| "refreshRank MakingDir = (7, 0)"
| "refreshRank Listing = (6, 0)"
| "refreshRank (Removing entries) = (5, length entries)"
| "refreshRank CheckingSource = (4, 0)"
| "refreshRank ListingSource = (3, 0)"
| "refreshRank (Reading entries copied) = (2, 2 * length entries)"
| "refreshRank (Writing entry content entries copied) = (2, Suc (2 * length entries))"
| "refreshRank (Clearing copied) = (1, 0)"
| "refreshRank Completed = (0, 0)"
| "refreshRank (Aborted e) = (0, 0)"

lemma proceed_cases:
  "(\<exists>e t. x = (Inl e, t) \<and> proceed x k = (Aborted e, t)) \<or> (\<exists>a t. x = (Inr a, t) \<and> proceed x k = (k a, t))"
  by (cases "(x, k)" rule: proceed.cases) auto

lemma proceedD:
  "proceed x k = (pc', t) \<Longrightarrow> (\<exists>e. pc' = Aborted e) \<or> (\<exists>a. x = (Inr a, t) \<and> pc' = k a)"
  using proceed_cases [of x k] by auto

lemma refreshStep_rank:
  assumes "\<not> refreshDone pc" and "refreshStep pf cfg pc s = (pc', t)"
  shows "(refreshRank pc', refreshRank pc) \<in> less_than <*lex*> less_than"
  using assms
proof (cases "(pf, cfg, pc, s)" rule: refreshStep.cases)
  case (3 pf cfg s)
  with assms show ?thesis by (auto split: prod.splits sum.splits)
next
  case (9 pf cfg entry entries s)
  with assms show ?thesis
    using proceed_cases [of "onFiles (fsRmForce (pathJoin [runtimeFunctionsPath pf, entry])) s"
        "\<lambda>_. removing entries"] by (auto simp: removing_def)
next
  case (14 pf cfg entry content entries copied s)
  with assms show ?thesis
    using proceed_cases [of "onFiles (fsWriteFile (pathJoin [runtimeFunctionsPath pf, entry]) content) s"
        "\<lambda>_. reading entries (Suc copied)"] by (auto simp: reading_def)
qed (use assms in \<open>auto simp: removing_def reading_def onFiles_def split: if_splits sum.splits
       elim!: proceed.elims\<close>)

function refreshRun ::
    "platform \<Rightarrow> settings \<Rightarrow> refresh_pc \<Rightarrow> 'a fn_state_scheme \<Rightarrow> refresh_pc \<times> 'a fn_state_scheme" where
  "refreshRun pf cfg pc s =
     (if refreshDone pc then (pc, s)
      else (case refreshStep pf cfg pc s of (pc', t) \<Rightarrow> refreshRun pf cfg pc' t))"
  by auto

termination refreshRun
proof (relation "inv_image (less_than <*lex*> less_than) (\<lambda>(pf, cfg, pc, s). refreshRank pc)", goal_cases)
  case 1
  show ?case by auto
next
  case 2
  then show ?case using refreshStep_rank [OF 2(1) surjective_pairing] by (simp add: case_prod_unfold)
qed

declare refreshRun.simps [simp del]

section \<open>Without interruption: the function itself\<close>

text \<open>The end an action corresponds to.\<close>

definition outcome :: "(js_error + unit) \<times> 's \<Rightarrow> refresh_pc \<times> 's" where
  "outcome x = proceed x (\<lambda>_. Completed)"

lemma outcome_simps [simp]:
  "outcome (Inl e, t) = (Aborted e, t)" "outcome (Inr u, t) = (Completed, t)"
  by (simp_all add: outcome_def)

lemma run_done [simp]: "refreshRun pf cfg Completed s = (Completed, s)" "refreshRun pf cfg (Aborted e) s = (Aborted e, s)"
  by (simp_all add: refreshRun.simps [of pf cfg Completed] refreshRun.simps [of pf cfg "Aborted e"])

lemma run_step:
  "\<not> refreshDone pc \<Longrightarrow>
     refreshRun pf cfg pc s = (case refreshStep pf cfg pc s of (pc', t) \<Rightarrow> refreshRun pf cfg pc' t)"
  by (simp add: refreshRun.simps [of pf cfg pc])

text \<open>One operation, then the rest.\<close>

lemma run_proceed:
  assumes "\<not> refreshDone pc" and "refreshStep pf cfg pc s = proceed (m s) k"
    and "\<And>a t. refreshRun pf cfg (k a) t = outcome (f a t)"
  shows "refreshRun pf cfg pc s = outcome (andThen m f s)"
  using proceed_cases [of "m s" k] assms by (auto simp: run_step andThen_Inr andThen_Inl)

definition finishSync :: "platform \<Rightarrow> settings \<Rightarrow> nat \<Rightarrow> ('a fn_state_scheme, unit) act" where
  "finishSync pf cfg copied =
     andThen clearModuleCache (\<lambda>_.
       logInfo ''repo sync complete''
         [(''project'', project cfg), (''repo_functions_path'', repoFunctionsPath cfg),
          (''runtime_functions_path'', runtimeFunctionsPath pf), (''files_copied'', showNat copied)])"

lemma run_clearing: "refreshRun pf cfg (Clearing copied) s = outcome (finishSync pf cfg copied s)"
  by (auto simp: run_step outcome_def finishSync_def clearModuleCache_def logInfo_def modify_def
      andThen_def)

lemma run_reading:
  fixes s :: "'a fn_state_scheme"
  shows "refreshRun pf cfg (reading (filter isFunctionFile entries) copied) s =
     outcome (andThen (forEach entries copied (\<lambda>entry copied.
       if \<not> isFunctionFile entry then ret copied
       else
         andThen (fromFiles (\<lambda>fs. fsReadFile fs (pathJoin [repoFunctionsPath cfg, entry]))) (\<lambda>content.
           andThen (onFiles (fsWriteFile (pathJoin [runtimeFunctionsPath pf, entry]) content)) (\<lambda>_.
             ret (Suc copied))))) (finishSync pf cfg) s)"
proof (induction entries arbitrary: copied s)
  case Nil
  show ?case by (simp add: reading_def run_clearing)
next
  case (Cons entry entries)
  show ?case
  proof (cases "isFunctionFile entry")
    case False
    with Cons.IH show ?thesis by simp
  next
    case True
    note IH = Cons.IH [of "Suc copied"]
    have w: "refreshRun pf cfg (Writing entry content (filter isFunctionFile entries) copied) t =
      outcome (andThen (onFiles (fsWriteFile (pathJoin [runtimeFunctionsPath pf, entry]) content))
        (\<lambda>_. andThen (forEach entries (Suc copied) (\<lambda>entry copied.
       if \<not> isFunctionFile entry then ret copied
       else
         andThen (fromFiles (\<lambda>fs. fsReadFile fs (pathJoin [repoFunctionsPath cfg, entry]))) (\<lambda>content.
           andThen (onFiles (fsWriteFile (pathJoin [runtimeFunctionsPath pf, entry]) content)) (\<lambda>_.
             ret (Suc copied))))) (finishSync pf cfg)) t)" for content and t :: "'a fn_state_scheme"
      by (rule run_proceed [where k = "\<lambda>_. reading (filter isFunctionFile entries) (Suc copied)"])
        (simp_all add: IH)
    show ?thesis
      using True run_proceed [where m = "fromFiles (\<lambda>fs. fsReadFile fs (pathJoin [repoFunctionsPath cfg, entry]))",
          OF _ refreshStep.simps(13) w]
      by (simp add: reading_def andThen_assoc)
  qed
qed

lemma run_copying:
  "refreshRun pf cfg CheckingSource s =
     outcome (andThen (copyPhase (runtimeFunctionsPath pf) (repoFunctionsPath cfg)) (finishSync pf cfg) s)"
proof (cases "fsExists (files s) (repoFunctionsPath cfg)")
  case True
  have "refreshRun pf cfg ListingSource s =
      outcome (andThen (fromFiles (\<lambda>fs. fsReaddir fs (repoFunctionsPath cfg)))
        (\<lambda>entries. andThen (copyFunctions (runtimeFunctionsPath pf) (repoFunctionsPath cfg) entries)
           (finishSync pf cfg)) s)"
    by (rule run_proceed [OF _ refreshStep.simps(11)])
      (simp_all add: run_reading copyFunctions_def)
  with True show ?thesis
    by (simp add: run_step [of CheckingSource] copyPhase_def andThen_assoc andThen_Inr)
next
  case False
  then show ?thesis
    by (simp add: run_step [of CheckingSource] copyPhase_def andThen_assoc andThen_Inr run_clearing)
qed

lemma run_removing:
  fixes s :: "'a fn_state_scheme"
  shows "refreshRun pf cfg (removing (filter isFunctionFile entries)) s =
     outcome (andThen (purgeRuntimeDir (runtimeFunctionsPath pf) entries) (\<lambda>_.
       andThen (copyPhase (runtimeFunctionsPath pf) (repoFunctionsPath cfg)) (finishSync pf cfg)) s)"
proof (induction entries arbitrary: s)
  case Nil
  show ?case by (simp add: removing_def run_copying purgeRuntimeDir_def)
next
  case (Cons entry entries)
  show ?case
  proof (cases "isFunctionFile entry")
    case False
    with Cons.IH show ?thesis by (simp add: purgeRuntimeDir_def)
  next
    case True
    then show ?thesis
      using run_proceed [where m = "onFiles (fsRmForce (pathJoin [runtimeFunctionsPath pf, entry]))",
          OF _ refreshStep.simps(9) Cons.IH]
      by (simp add: removing_def purgeRuntimeDir_def andThen_assoc)
  qed
qed

lemma run_making:
  fixes s :: "'a fn_state_scheme"
  shows "refreshRun pf cfg MakingDir s = outcome (syncRuntimeFunctionsDir pf cfg (repoFunctionsPath cfg) s)"
proof -
  have "refreshRun pf cfg Listing t =
      outcome (andThen (fromFiles (\<lambda>fs. fsReaddir fs (runtimeFunctionsPath pf))) (\<lambda>old.
        andThen (purgeRuntimeDir (runtimeFunctionsPath pf) old) (\<lambda>_.
        andThen (copyPhase (runtimeFunctionsPath pf) (repoFunctionsPath cfg)) (finishSync pf cfg))) t)"
    for t :: "'a fn_state_scheme"
    by (rule run_proceed [OF _ refreshStep.simps(7) run_removing]) simp
  from run_proceed [where m = "onFiles (fsMkdir (runtimeFunctionsPath pf))", OF _ refreshStep.simps(6) this] show ?thesis
    unfolding sync_phases ensureRuntimeDir_def finishSync_def by simp
qed

lemma run_checking:
  fixes s :: "'a fn_state_scheme"
  shows "refreshRun pf cfg Checking s =
     outcome (andThen (syncRepo pf cfg) (\<lambda>_. syncRuntimeFunctionsDir pf cfg (repoFunctionsPath cfg)) s)"
proof (cases "fsExists (files s) (repoPath cfg)")
  case False
  have "refreshRun pf cfg Cloning s =
      outcome (andThen (andThen (fromResult (repoURL pf cfg)) (\<lambda>url. run pf (gitClone cfg url)))
        (\<lambda>_. syncRuntimeFunctionsDir pf cfg (repoFunctionsPath cfg)) s)"
    by (rule run_proceed [OF _ refreshStep.simps(5) run_making]) simp
  with False show ?thesis
    by (simp add: run_step [of Checking] syncRepo_def andThen_assoc andThen_Inr)
next
  case True
  have m: "refreshRun pf cfg ResettingMaster t =
      outcome (andThen (run pf (gitReset cfg ''origin/master''))
        (\<lambda>_. syncRuntimeFunctionsDir pf cfg (repoFunctionsPath cfg)) t)" for t :: "'a fn_state_scheme"
    by (rule run_proceed [OF _ refreshStep.simps(4) run_making]) simp
  have r: "refreshRun pf cfg ResettingMain t =
      outcome (andThen (tryCatch (run pf (gitReset cfg ''origin/main''))
          (\<lambda>_. run pf (gitReset cfg ''origin/master'')))
        (\<lambda>_. syncRuntimeFunctionsDir pf cfg (repoFunctionsPath cfg)) t)" for t :: "'a fn_state_scheme"
    by (cases "run pf (gitReset cfg ''origin/main'') t"; cases "fst (run pf (gitReset cfg ''origin/main'') t)")
      (auto simp: run_step [of ResettingMain] m run_making tryCatch_def andThen_def)
  have "refreshRun pf cfg Fetching s =
      outcome (andThen (run pf (gitFetch cfg)) (\<lambda>_.
        andThen (tryCatch (run pf (gitReset cfg ''origin/main'')) (\<lambda>_. run pf (gitReset cfg ''origin/master'')))
        (\<lambda>_. syncRuntimeFunctionsDir pf cfg (repoFunctionsPath cfg))) s)"
    by (rule run_proceed [OF _ refreshStep.simps(2) r]) simp
  with True show ?thesis
    by (simp add: run_step [of Checking] syncRepo_def andThen_assoc andThen_Inr)
qed

lemma refreshRun_atomic:
  "refreshRun pf cfg Checking (refreshBegin cfg s) =
     (case syncRepoAndReload pf cfg s of (Inl e, t) \<Rightarrow> (Aborted e, t) | (Inr _, t) \<Rightarrow> (Completed, t))"
proof -
  have "syncRepoAndReload pf cfg s =
      andThen (syncRepo pf cfg) (\<lambda>_. syncRuntimeFunctionsDir pf cfg (repoFunctionsPath cfg)) (refreshBegin cfg s)"
    by (simp add: syncRepoAndReload_def refreshBegin_def logInfo_def modify_def andThen_def)
  then show ?thesis
    by (simp add: run_checking outcome_def split: prod.splits sum.splits)
qed

text \<open>
  A refresh cut at its \<^verbatim>\<open>await\<close>s comes to an end however the state changes between its steps:
  no sequence of its program points is infinite. When nothing happens in between, it ends with
  the result and the state of the function that is not cut.
\<close>

theorem refresh_steps_end:
  "(\<nexists>pcs. \<forall>i. \<not> refreshDone (pcs i)
      \<and> (\<exists>s t :: 'a fn_state_scheme. refreshStep pf cfg (pcs i) s = (pcs (Suc i), t)))
    \<and> refreshRun pf cfg Checking (refreshBegin cfg (s :: 'a fn_state_scheme)) =
       (case syncRepoAndReload pf cfg s of (Inl e, t) \<Rightarrow> (Aborted e, t) | (Inr _, t) \<Rightarrow> (Completed, t))"
proof -
  have "wf (inv_image (less_than <*lex*> less_than) refreshRank)" by auto
  then have "\<nexists>pcs. \<forall>i. (pcs (Suc i), pcs i) \<in> inv_image (less_than <*lex*> less_than) refreshRank"
    by (simp add: wf_iff_no_infinite_down_chain)
  moreover have "(pc', pc) \<in> inv_image (less_than <*lex*> less_than) refreshRank"
    if "\<not> refreshDone pc" "refreshStep pf cfg pc s = (pc', t)" for pc pc' and s t :: "'a fn_state_scheme"
    using refreshStep_rank [OF that] by simp
  ultimately show ?thesis using refreshRun_atomic by blast
qed

section \<open>A load in steps\<close>

datatype load_pc =
    Lookup | Stat | Found bool | Importing string | Storing loaded_module
  | Loaded "js_error + loaded_module"

text \<open>
  The URL is made from the version at the time \<^verbatim>\<open>stat\<close> has answered, the file is read later,
  and the module is stored later again.
\<close>

fun loadStep ::
    "platform \<Rightarrow> string \<Rightarrow> load_pc \<Rightarrow> 'a fn_state_scheme \<Rightarrow> load_pc \<times> 'a fn_state_scheme" where
  "loadStep pf name Lookup s =
     (case mapGet (modules s) name of Some m \<Rightarrow> Loaded (Inr m) | None \<Rightarrow> Stat, s)"
| "loadStep pf name Stat s = (Found (fsExists (files s) (functionPath pf name)), s)"
| "loadStep pf name (Found present) s =
     (if present then Importing (importURL (functionPath pf name) (moduleVersion s))
      else Loaded (Inl (notFoundError pf name)), s)"
| "loadStep pf name (Importing url) s =
     (case importModule pf url (functionPath pf name) s of
        (Inl e, t) \<Rightarrow> (Loaded (Inl e), t)
      | (Inr m, t) \<Rightarrow> (Storing m, t))"
| "loadStep pf name (Storing m) s = (Loaded (Inr m), s\<lparr>modules := mapSet name m (modules s)\<rparr>)"
| "loadStep pf name (Loaded r) s = (Loaded r, s)"

fun loadSteps ::
    "platform \<Rightarrow> string \<Rightarrow> nat \<Rightarrow> load_pc \<Rightarrow> 'a fn_state_scheme \<Rightarrow> load_pc \<times> 'a fn_state_scheme" where
  "loadSteps pf name 0 pc s = (pc, s)"
| "loadSteps pf name (Suc n) pc s = (case loadStep pf name pc s of (pc', t) \<Rightarrow> loadSteps pf name n pc' t)"

lemma loadSteps_Loaded [simp]: "loadSteps pf name n (Loaded r) s = (Loaded r, s)"
  by (induction n) simp_all

text \<open>
  A load takes at most five steps; when nothing happens in between, its result and the state
  it leaves are those of \<^verbatim>\<open>loadModule\<close>.
\<close>

lemma load_steps_are_the_load:
  "loadSteps pf name (5 + n) Lookup s = (case loadModule pf name s of (r, t) \<Rightarrow> (Loaded r, t))"
  by (auto simp: loadModule_cases eval_nat_numeral split: option.splits prod.splits sum.splits)

lemma loadStep_frame:
  assumes "loadStep pf name pc s = (pc', t)"
  shows "files t = files s" "moduleVersion t = moduleVersion s"
  using assms
  by (cases pc; auto split: option.splits if_splits prod.splits sum.splits dest!: importModule_frame)+

section \<open>What a step of a refresh changes\<close>

lemma proceed_keeps:
  assumes "keeps P m" and "P s" and "proceed (m s) k = (pc', t)"
  shows "P t"
proof (cases "m s")
  case (Pair r u)
  with keepsD [OF assms(1,2)] have "P u" by blast
  with assms(3) Pair show ?thesis by (cases r) auto
qed

lemma refreshStep_keeps:
  assumes "refreshStep pf cfg pc s = (pc', t)" and "P s"
    and "\<And>cmd. keeps P (run pf cmd)" and "keeps P (onFiles (fsMkdir (runtimeFunctionsPath pf)))"
    and "\<And>p. keeps P (onFiles (fsRmForce p))" and "\<And>p b. keeps P (onFiles (fsWriteFile p b))"
    and "\<And>n. pc = Clearing n \<Longrightarrow> keeps P (finishSync pf cfg n)"
  shows "P t"
  using assms(1)
proof (cases "(pf, cfg, pc, s)" rule: refreshStep.cases)
  case 3
  with assms(1,2) keepsD [OF assms(3) assms(2)] show ?thesis
    by (auto split: prod.splits sum.splits)
next
  case 5
  have "keeps P (andThen (fromResult (repoURL pf cfg)) (\<lambda>url. run pf (gitClone cfg url)))"
    by (intro keeps_andThen assms(3)) (simp add: keeps_def fromResult_def)
  from proceed_keeps [OF this assms(2)] 5 assms(1) show ?thesis by auto
next
  case (15 _ _ copied)
  with assms(7) have "keeps P (finishSync pf cfg copied)" by simp
  from proceed_keeps [OF this assms(2)] 15 assms(1) show ?thesis by (auto simp: finishSync_def)
qed (use assms(1,2) proceed_keeps [OF assms(3) assms(2)] proceed_keeps [OF assms(4) assms(2)]
      proceed_keeps [OF assms(5) assms(2)] proceed_keeps [OF assms(6) assms(2)]
    in \<open>auto split: if_splits sum.splits elim!: proceed.elims\<close>)

lemma refreshStep_blind:
  assumes "refreshStep pf cfg pc s = (pc', t)" and "osBlind P" and "P s" and "\<And>n. pc \<noteq> Clearing n"
  shows "P t"
  by (rule refreshStep_keeps [where P = P, OF assms(1,3)])
    (use assms(4) in \<open>auto intro: keeps_run [OF assms(2)] keeps_blind [OF assms(2)]\<close>)

lemma clearing_step:
  "refreshStep pf cfg (Clearing n) s = (pc', t) \<Longrightarrow>
     pc' = Completed \<and> files t = files s
     \<and> loaderPart t = ([], Suc (moduleVersion s), importTable s)"
  by (auto simp: clearModuleCache_def logInfo_def modify_def andThen_def loaderPart_def)

lemma finished_only_by_clearing:
  assumes "refreshStep pf cfg pc s = (Completed, t)"
  shows "pc = Completed \<or> (\<exists>n. pc = Clearing n)"
  using assms
  by (cases "(pf, cfg, pc, s)" rule: refreshStep.cases)
    (auto simp: removing_def reading_def split: if_splits prod.splits sum.splits elim!: proceed.elims)

lemma refreshStep_fsInv:
  assumes "refreshStep pf cfg pc s = (pc', t)" and "commandsTidy pf" and "fsInv (files s)"
  shows "fsInv (files t)"
  by (rule refreshStep_keeps [where P = "\<lambda>s. fsInv (files s)", OF assms(1,3)])
    (auto simp: finishSync_def intro: run_fsInv [OF assms(2)] keeps_fsInv intro!: keeps_andThen keeps_clear_fsInv)

end
