(* ===== verification/Rt_Invoke.thy ===== *)
theory Rt_Invoke
  imports Rt_Loader
begin

text \<open>
  \<^verbatim>\<open>runtimes/ts/pkg/functions.ts\<close>, third part: \<^verbatim>\<open>invokeModule\<close>, the asynchronous generator
  that runs a function and yields its output in chunks of bytes. A generator is modelled by
  what it does when it is driven: the chunks it yields and how it ends.
\<close>

section \<open>From a handler's result to chunks\<close>

fun yieldAll :: "jsval gen \<Rightarrow> bytes gen" where
  "yieldAll Done = Done"
| "yieldAll (Fail e) = Fail e"
| "yieldAll Stuck = Stuck"
| "yieldAll (Yield item g) =
     (case asBytes item of Inl e \<Rightarrow> Fail e | Inr b \<Rightarrow> Yield b (yieldAll g))"

definition yieldOne :: "js_error + bytes \<Rightarrow> bytes gen" where
  "yieldOne r = (case r of Inl e \<Rightarrow> Fail e | Inr b \<Rightarrow> Yield b Done)"

definition isString :: "jsval \<Rightarrow> bool" where
  "isString v = (case v of JString s \<Rightarrow> True | _ \<Rightarrow> False)"

definition readResponse :: "bytes \<Rightarrow> bool \<Rightarrow> js_error + bytes" where
  "readResponse body used = (if used then Inl bodyUsedError else Inr body)"

definition resultChunks :: "jsval \<Rightarrow> bytes gen" where
  "resultChunks result =
     (if result = JUndefined \<or> result = JNull then Yield [] Done
      else case result of
        JResponse body used \<Rightarrow> yieldOne (readResponse body used)
      | _ \<Rightarrow>
          (case asyncIterator result of
             Some g \<Rightarrow> yieldAll g
           | None \<Rightarrow>
               (case syncIterator result of
                  Some g \<Rightarrow> if \<not> isString result then yieldAll g else yieldOne (asBytes result)
                | None \<Rightarrow> yieldOne (asBytes result))))"

definition settledChunks :: "jsval settled \<Rightarrow> bytes gen" where
  "settledChunks r =
     (case r of Resolved v \<Rightarrow> resultChunks v | Rejected e \<Rightarrow> Fail e | Pending \<Rightarrow> Stuck)"

section \<open>Invoking a function\<close>

definition noHandleError :: "string \<Rightarrow> js_error" where
  "noHandleError name =
     JsError ''Error'' (''module '' @ [CHR 0x27] @ name @ [CHR 0x27]
       @ '' does not export handle(req)'')"

definition runHandler :: "string \<Rightarrow> loaded_module \<Rightarrow> bytes \<Rightarrow> http_request option \<Rightarrow> bytes gen" where
  "runHandler name m payload request =
     (case handle m of
        None \<Rightarrow> Fail (noHandleError name)
      | Some h \<Rightarrow>
          settledChunks
            (h (case request of Some req \<Rightarrow> Native req | None \<Rightarrow> toRequestLike payload)))"

definition invokeModule ::
    "platform \<Rightarrow> string \<Rightarrow> string \<Rightarrow> bytes \<Rightarrow> http_request option \<Rightarrow>
     'a fn_state_scheme \<Rightarrow> bytes gen \<times> 'a fn_state_scheme" where
  "invokeModule pf name reqID payload request s =
     (case loadModule pf name s of
        (Inl e, t) \<Rightarrow> (Fail e, t)
      | (Inr m, t) \<Rightarrow> (runHandler name m payload request, t))"

text \<open>The reference: the same, from the files alone.\<close>

definition invokeUncached ::
    "platform \<Rightarrow> fs \<Rightarrow> string \<Rightarrow> bytes \<Rightarrow> http_request option \<Rightarrow> bytes gen" where
  "invokeUncached pf fs name payload request =
     (case loadUncached pf fs name of
        Inl e \<Rightarrow> Fail e
      | Inr m \<Rightarrow> runHandler name m payload request)"

section \<open>Lemmas\<close>

text \<open>How a generator ended.\<close>

fun ending :: "'a gen \<Rightarrow> js_error option option" where
  "ending Done = Some None"
| "ending (Fail e) = Some (Some e)"
| "ending Stuck = None"
| "ending (Yield x g) = ending g"

lemma genOfList_yields [simp]: "yields (genOfList xs) = xs" "ending (genOfList xs) = Some None"
  by (induction xs) auto

lemma yieldAll_prefix:
  "yields (yieldAll g) = map (projr \<circ> asBytes) (takeWhile (\<lambda>v. \<not> reachesBigInt v) (yields g))"
proof (induction g)
  case (Yield v g)
  show ?case
  proof (cases "asBytes v")
    case (Inl e)
    then have "reachesBigInt v" using asBytes_fails by blast
    with Inl show ?thesis by simp
  next
    case (Inr b)
    then have "\<not> reachesBigInt v" using asBytes_fails [of v] by auto
    with Inr Yield show ?thesis by simp
  qed
qed simp_all

lemma asBytes_error: "asBytes v = Inl e \<Longrightarrow> e = bigIntError"
  using jsonText_error(1) [of v] by (cases v) (auto split: sum.splits option.splits)

lemma yieldAll_ending:
  "ending (yieldAll g) =
     (if \<exists>v \<in> set (yields g). reachesBigInt v then Some (Some bigIntError) else ending g)"
proof (induction g)
  case (Yield v g)
  show ?case
  proof (cases "asBytes v")
    case (Inl e)
    then have "reachesBigInt v" "e = bigIntError" using asBytes_fails asBytes_error by blast+
    with Inl show ?thesis by simp
  next
    case (Inr b)
    then have "\<not> reachesBigInt v" using asBytes_fails [of v] by auto
    with Inr Yield show ?thesis by simp
  qed
qed simp_all

lemma resultChunks_simps [simp]:
  "resultChunks JUndefined = Yield [] Done" "resultChunks JNull = Yield [] Done"
  "resultChunks (JResponse b u) = yieldOne (readResponse b u)"
  "resultChunks (JString s) = Yield (textEncode s) Done"
  "resultChunks (JArrayBuffer b) = Yield b Done"
  "resultChunks (JArray vs) = yieldAll (genOfList vs)"
  "resultChunks (JUint8Array b) = yieldAll (genOfList (map (\<lambda>x. JNum (numOfNat (unat x))) b))"
  "resultChunks (JObject ps it ait) =
     (case ait of Some g \<Rightarrow> yieldAll g
      | None \<Rightarrow> (case it of Some g \<Rightarrow> yieldAll g | None \<Rightarrow> yieldOne (asBytes (JObject ps it ait))))"
  by (auto simp: resultChunks_def isString_def yieldOne_def split: option.splits)

lemma asBytes_byte: "asBytes (JNum (numOfNat (unat (x :: 8 word)))) = Inr (textEncode (showNat (unat x)))"
  using numberText_byte [of x] by (auto simp: numOfNat_def split: if_splits)

lemma yieldAll_bytes:
  "yieldAll (genOfList (map (\<lambda>x. JNum (numOfNat (unat x))) b)) =
     genOfList (map (\<lambda>x. textEncode (showNat (unat x))) (b :: bytes))"
  by (induction b) (simp_all del: asBytes.simps add: asBytes_byte)

lemma invoke_load: "snd (invokeModule pf name r p q s) = snd (loadModule pf name s)"
  by (simp add: invokeModule_def split: prod.splits sum.splits)

lemma invokeModule_frame:
  assumes "invokeModule pf name r p q s = (g, t)"
  shows "files t = files s" "moduleVersion t = moduleVersion s" "console t = console s"
    "spawned t = spawned s" "fn_state.more t = fn_state.more s"
proof -
  have "loadModule pf name s = (fst (loadModule pf name s), t)"
    using invoke_load [of pf name r p q s] assms by (metis prod.collapse snd_conv)
  note frame = loadModule_frame [OF this]
  show "files t = files s" "moduleVersion t = moduleVersion s" "console t = console s"
    "spawned t = spawned s" "fn_state.more t = fn_state.more s" by (fact frame)+
qed

lemma invoke_fresh:
  assumes "loaderFresh pf s"
  shows "fst (invokeModule pf name r p q s) = invokeUncached pf (files s) name p q"
    and "loaderFresh pf (snd (invokeModule pf name r p q s))"
proof -
  show "loaderFresh pf (snd (invokeModule pf name r p q s))"
    unfolding invoke_load by (rule cached.load_good [OF assms])
  show "fst (invokeModule pf name r p q s) = invokeUncached pf (files s) name p q"
    using cached.load_view [OF assms, of name]
    by (auto simp: invokeModule_def invokeUncached_def split: prod.splits sum.splits)
qed

lemma invoke_inv: "loaderInv s \<Longrightarrow> loaderInv (snd (invokeModule pf name r p q s))"
  unfolding invoke_load by (metis loaderInv_load prod.collapse)

end
