(* ===== verification/Rt_Consumer.thy ===== *)
theory Rt_Consumer
  imports Rt_Invoke
begin

text \<open>
  \<^verbatim>\<open>runtimes/ts/pkg/consumer.ts\<close>: one NATS subscription and one message loop per function,
  the reconciliation of these consumers with the functions on disk, and the hook that
  refreshes the code. The connection is its list of live subscriptions and the list of
  messages published on it; which messages reach a subscription is up to the server.
\<close>

section \<open>State\<close>

record rt_state = fn_state +
  consumers :: "(string, nat) jsmap"  \<comment> \<open>\<^verbatim>\<open>CONSUMERS\<close>: the subscription of each function\<close>
  subs :: "(nat \<times> string) list"  \<comment> \<open>live subscriptions of the connection, with their subjects\<close>
  nextSid :: nat
  published :: "(string \<times> bytes) list"

definition execSubject :: "settings \<Rightarrow> string \<Rightarrow> string" where
  "execSubject cfg name = project cfg @ ''.'' @ name @ ''.exec.ts.*''"

definition resSubject :: "settings \<Rightarrow> string \<Rightarrow> string \<Rightarrow> string" where
  "resSubject cfg name reqID = project cfg @ ''.'' @ name @ ''.res.ts.'' @ reqID"

definition hookSubject :: "settings \<Rightarrow> string" where
  "hookSubject cfg = project cfg @ ''.hook.ts''"

definition subscribe :: "platform \<Rightarrow> string \<Rightarrow> ('a rt_state_scheme, nat) act" where
  "subscribe pf subject s =
     (case natsSubscribe pf subject of
        Some e \<Rightarrow> (Inl e, s)
      | None \<Rightarrow> (Inr (nextSid s), s\<lparr>subs := subs s @ [(nextSid s, subject)], nextSid := Suc (nextSid s)\<rparr>))"

definition unsubscribe :: "nat \<Rightarrow> ('a rt_state_scheme, unit) act" where
  "unsubscribe sid = modify (\<lambda>s. s\<lparr>subs := filter (\<lambda>(i, _). i \<noteq> sid) (subs s)\<rparr>)"

section \<open>Consuming messages\<close>

text \<open>Publishing the chunks of an invocation, up to its end or the first thing that throws.\<close>

datatype drained = Finished | Threw js_error | Waiting

fun publishAll ::
    "platform \<Rightarrow> string \<Rightarrow> bytes gen \<Rightarrow> 'a rt_state_scheme \<Rightarrow> drained \<times> 'a rt_state_scheme" where
  "publishAll pf subject Done s = (Finished, s)"
| "publishAll pf subject (Fail e) s = (Threw e, s)"
| "publishAll pf subject Stuck s = (Waiting, s)"
| "publishAll pf subject (Yield out g) s =
     (case natsPublish pf subject out of
        Some e \<Rightarrow> (Threw e, s)
      | None \<Rightarrow> publishAll pf subject g (s\<lparr>published := published s @ [(subject, out)]\<rparr>))"

text \<open>\<^verbatim>\<open>msg.subject.split(".")[4] ?? ""\<close>\<close>

definition requestID :: "string \<Rightarrow> string" where
  "requestID subject =
     (let parts = split CHR ''.'' subject in if 4 < length parts then parts ! 4 else [])"

text \<open>One round of the message loop: whether the loop goes on, and the state.\<close>

definition handleMessage ::
    "platform \<Rightarrow> settings \<Rightarrow> string \<Rightarrow> string \<times> bytes \<Rightarrow> 'a rt_state_scheme \<Rightarrow>
     bool \<times> 'a rt_state_scheme" where
  "handleMessage pf cfg name msg s =
     (case msg of
        (subject, data) \<Rightarrow>
          (let reqID = requestID subject in
           case invokeModule pf name reqID data None s of
             (g, t) \<Rightarrow>
               (case publishAll pf (resSubject cfg name reqID) g t of
                  (Finished, u) \<Rightarrow> (True, u)
                | (Waiting, u) \<Rightarrow> (False, u)
                | (Threw e, u) \<Rightarrow>
                    (True, snd (logError ''async invoke failed''
                       [(''project'', project cfg), (''function'', name), (''error'', err_string e)] u)))))"

fun consumerTask ::
    "platform \<Rightarrow> settings \<Rightarrow> string \<Rightarrow> (string \<times> bytes) list \<Rightarrow> 'a rt_state_scheme \<Rightarrow>
     'a rt_state_scheme" where
  "consumerTask pf cfg name [] s = s"
| "consumerTask pf cfg name (msg # msgs) s =
     (case handleMessage pf cfg name msg s of
        (True, t) \<Rightarrow> consumerTask pf cfg name msgs t
      | (False, t) \<Rightarrow> t)"

definition consumeFunction :: "platform \<Rightarrow> settings \<Rightarrow> string \<Rightarrow> ('a rt_state_scheme, unit) act" where
  "consumeFunction pf cfg name =
     (let subject = execSubject cfg name in
      andThen (subscribe pf subject) (\<lambda>sid.
      andThen (modify (\<lambda>s. s\<lparr>consumers := mapSet name sid (consumers s)\<rparr>)) (\<lambda>_.
      logInfo ''ts consumer started'' [(''function'', name), (''subject'', subject)])))"

section \<open>Reconciliation\<close>

definition cancelConsumer :: "string \<Rightarrow> nat \<Rightarrow> ('a rt_state_scheme, unit) act" where
  "cancelConsumer name sid =
     andThen (unsubscribe sid) (\<lambda>_.
     modify (\<lambda>s. s\<lparr>consumers := mapDelete name (consumers s)\<rparr>))"

definition dropConsumers ::
    "string list \<Rightarrow> (string \<times> nat) list \<Rightarrow> ('a rt_state_scheme, unit) act" where
  "dropConsumers desired entries =
     forEach entries () (\<lambda>(name, sid) _.
       if name \<in> set desired then ret () else cancelConsumer name sid)"

definition startConsumers ::
    "platform \<Rightarrow> settings \<Rightarrow> string list \<Rightarrow> ('a rt_state_scheme, unit) act" where
  "startConsumers pf cfg desired =
     forEach desired () (\<lambda>name _.
       andThen (gets (\<lambda>s. mapHas (consumers s) name)) (\<lambda>running.
         if running then ret () else consumeFunction pf cfg name))"

definition reconcileConsumers :: "platform \<Rightarrow> settings \<Rightarrow> ('a rt_state_scheme, unit) act" where
  "reconcileConsumers pf cfg =
     andThen (listFunctions pf) (\<lambda>names.
       let desired = newSet names in
       andThen (gets consumers) (\<lambda>entries.
       andThen (dropConsumers desired entries) (\<lambda>_.
       startConsumers pf cfg desired)))"

section \<open>The refresh hook\<close>

definition handleHook ::
    "platform \<Rightarrow> settings \<Rightarrow> string \<times> bytes \<Rightarrow> ('a rt_state_scheme, unit) act" where
  "handleHook pf cfg msg =
     tryCatch
       (andThen (logInfo ''ts hook received''
          [(''project'', project cfg), (''subject'', fst msg), (''payload'', textDecode (snd msg))]) (\<lambda>_.
        andThen (syncRepoAndReload pf cfg) (\<lambda>_.
        andThen (reconcileConsumers pf cfg) (\<lambda>_.
        logInfo ''runtime code refreshed via hook'' [(''project'', project cfg)]))))
       (\<lambda>e. logError ''failed to refresh runtime code''
          [(''project'', project cfg), (''error'', err_string e)])"

definition hookTask ::
    "platform \<Rightarrow> settings \<Rightarrow> (string \<times> bytes) list \<Rightarrow> ('a rt_state_scheme, unit) act" where
  "hookTask pf cfg msgs = forEach msgs () (\<lambda>msg _. handleHook pf cfg msg)"

definition watchTSHook :: "platform \<Rightarrow> settings \<Rightarrow> ('a rt_state_scheme, unit) act" where
  "watchTSHook pf cfg =
     (let subjects = [hookSubject cfg] in
      andThen (logInfo ''ts hook listener started''
        [(''project'', project cfg), (''subjects'', join '','' subjects)]) (\<lambda>_.
      forEach subjects () (\<lambda>subject _. andThen (subscribe pf subject) (\<lambda>_. ret ()))))"

section \<open>The invariant of the consumers\<close>

text \<open>
  Apart from the hook's, the live subscriptions are exactly those of the consumer table, each
  on the subject of its function.
\<close>

definition consumersInv :: "settings \<Rightarrow> 'a rt_state_scheme \<Rightarrow> bool" where
  "consumersInv cfg s \<longleftrightarrow>
     mapInv (consumers s) \<and> distinct (map fst (subs s))
     \<and> (\<forall>(i, _) \<in> set (subs s). i < nextSid s)
     \<and> (\<forall>i subject. subject \<noteq> hookSubject cfg \<longrightarrow>
          (i, subject) \<in> set (subs s) \<longleftrightarrow>
          (\<exists>name. mapGet (consumers s) name = Some i \<and> subject = execSubject cfg name))"

lemma execSubject_inject [simp]: "execSubject cfg m = execSubject cfg n \<longleftrightarrow> m = n"
  by (simp add: execSubject_def)

lemma execSubject_not_hook [simp]: "execSubject cfg n \<noteq> hookSubject cfg"
proof
  assume "execSubject cfg n = hookSubject cfg"
  then have "last (execSubject cfg n) = last (hookSubject cfg)" by simp
  then show False by (simp add: execSubject_def hookSubject_def)
qed

lemma consumersInv_get:
  "consumersInv cfg s \<Longrightarrow> mapGet (consumers s) n = Some i \<Longrightarrow> (i, execSubject cfg n) \<in> set (subs s)"
  by (auto simp: consumersInv_def)

text \<open>No two functions share a subscription.\<close>

lemma consumersInv_distinct:
  assumes "consumersInv cfg s" and "mapGet (consumers s) m = Some i" and "mapGet (consumers s) n = Some i"
  shows "m = n"
proof -
  have "(i, execSubject cfg m) \<in> set (subs s)" "(i, execSubject cfg n) \<in> set (subs s)"
    using assms consumersInv_get by blast+
  moreover have "distinct (map fst (subs s))" using assms(1) by (simp add: consumersInv_def)
  ultimately show ?thesis by (metis eq_key_imp_eq_value execSubject_inject)
qed

section \<open>The contract of a reconciler\<close>

text \<open>
  A table of running things, the action that stops one and the action that starts one. The two
  loops of a reconciliation, first stopping what is not desired and then starting what is
  missing, are verified against it.
\<close>

locale reconciler =
  fixes running :: "'s \<Rightarrow> 'k \<Rightarrow> 'v option"
    and stop :: "'k \<Rightarrow> 'v \<Rightarrow> ('s, unit) act"
    and start :: "'k \<Rightarrow> ('s, unit) act"
    and inv :: "'s \<Rightarrow> bool"
  assumes stop_ok: "inv s \<Longrightarrow> running s k = Some v \<Longrightarrow>
      \<exists>t. stop k v s = (Inr (), t) \<and> inv t \<and> running t = (running s)(k := None)"
    and start_Inr: "inv s \<Longrightarrow> running s k = None \<Longrightarrow> start k s = (Inr u, t) \<Longrightarrow>
      inv t \<and> (\<exists>v. running t = (running s)(k \<mapsto> v))"
    and start_Inl: "inv s \<Longrightarrow> running s k = None \<Longrightarrow> start k s = (Inl e, t) \<Longrightarrow>
      inv t \<and> running t = running s"
begin

lemma stop_loop:
  assumes "inv s" and "distinct (map fst es)" and "\<forall>(k, v) \<in> set es. running s k = Some v"
  shows "\<exists>t. forEach es () (\<lambda>(k, v) _. if k \<in> D then ret () else stop k v) s = (Inr (), t) \<and> inv t
    \<and> running t = (\<lambda>k. if k \<in> fst ` set es \<and> k \<notin> D then None else running s k)"
  using assms
proof (induction es arbitrary: s)
  case Nil
  then show ?case by (simp add: ret_def)
next
  case (Cons e es)
  obtain k v where e: "e = (k, v)" by (cases e)
  show ?case
  proof (cases "k \<in> D")
    case True
    with Cons.IH [OF Cons.prems(1)] Cons.prems e show ?thesis by (auto simp: fun_eq_iff)
  next
    case False
    from Cons.prems e obtain s1 where s1: "stop k v s = (Inr (), s1)" "inv s1"
      "running s1 = (running s)(k := None)" using stop_ok [of s k v] by auto
    have "\<forall>(k', v') \<in> set es. running s1 k' = Some v'"
      using Cons.prems e s1(3) by force
    with Cons.IH [OF s1(2)] Cons.prems(2) e obtain t where
      t: "forEach es () (\<lambda>(k, v) _. if k \<in> D then ret () else stop k v) s1 = (Inr (), t)" "inv t"
      "running t = (\<lambda>k. if k \<in> fst ` set es \<and> k \<notin> D then None else running s1 k)" by auto
    have "running t = (\<lambda>k. if k \<in> fst ` set (e # es) \<and> k \<notin> D then None else running s k)"
      using t(3) s1(3) e False by (auto simp: fun_eq_iff)
    with t s1(1) e False show ?thesis by (simp add: andThen_Inr)
  qed
qed

lemma start_loop:
  assumes "inv s" and "forEach ks () (\<lambda>k _. andThen (gets (\<lambda>s. running s k \<noteq> None))
      (\<lambda>r. if r then ret () else start k)) s = (r, t)"
  shows "inv t" "running s k = Some v \<Longrightarrow> running t k = Some v"
    "k \<notin> set ks \<Longrightarrow> running t k = running s k"
    "r = Inr () \<Longrightarrow> k \<in> set ks \<Longrightarrow> running t k \<noteq> None"
proof -
  let ?f = "\<lambda>k (_ :: unit). andThen (gets (\<lambda>s. running s k \<noteq> None)) (\<lambda>r. if r then ret () else start k)"
  have "inv t \<and> (\<forall>k v. running s k = Some v \<longrightarrow> running t k = Some v)
    \<and> (\<forall>k. k \<notin> set ks \<longrightarrow> running t k = running s k)
    \<and> (r = Inr () \<longrightarrow> (\<forall>k \<in> set ks. running t k \<noteq> None))"
    using assms
  proof (induction ks arbitrary: s)
    case Nil
    then show ?case by (simp add: ret_def)
  next
    case (Cons k ks)
    show ?case
    proof (cases "running s k")
      case (Some v)
      then have "?f k () s = (Inr (), s)" by (simp add: ret_def)
      with Cons.prems(2) have "forEach ks () ?f s = (r, t)" by (simp only: forEach.simps andThen_Inr)
      from Cons.IH [OF Cons.prems(1) this] Some show ?thesis by auto
    next
      case None
      obtain x s1 where x: "start k s = (x, s1)" by (cases "start k s")
      with None have f: "?f k () s = (x, s1)" by simp
      show ?thesis
      proof (cases x)
        case (Inl e)
        with Cons.prems(2) f have "r = Inl e" "t = s1" by (simp_all only: forEach.simps andThen_Inl) simp_all
        with start_Inl [OF Cons.prems(1) None] x Inl show ?thesis by simp
      next
        case (Inr u)
        with start_Inr [OF Cons.prems(1) None] x obtain v where
          s1: "inv s1" "running s1 = (running s)(k \<mapsto> v)" by auto
        from Cons.prems(2) f Inr have "forEach ks () ?f s1 = (r, t)"
          by (cases u) (simp only: forEach.simps andThen_Inr)
        note ih = Cons.IH [OF s1(1) this]
        have k: "running s1 k = Some v" and up: "\<And>j w. running s j = Some w \<Longrightarrow> running s1 j = Some w"
          and other: "\<And>j. j \<noteq> k \<Longrightarrow> running s1 j = running s j" using s1(2) None by auto
        have "running t k = Some v" using ih k by blast
        moreover have "running t j = Some w" if "running s j = Some w" for j w using ih up [OF that] by blast
        moreover have "running t j = running s j" if "j \<notin> set (k # ks)" for j
          using ih other [of j] that by simp
        ultimately show ?thesis using ih by simp
      qed
    qed
  qed
  then show "inv t" "running s k = Some v \<Longrightarrow> running t k = Some v"
    "k \<notin> set ks \<Longrightarrow> running t k = running s k"
    "r = Inr () \<Longrightarrow> k \<in> set ks \<Longrightarrow> running t k \<noteq> None" by auto
qed

lemma start_loop_error:
  assumes "forEach ks () (\<lambda>k _. andThen (gets (\<lambda>s. running s k \<noteq> None))
      (\<lambda>r. if r then ret () else start k)) s = (Inl e, t)"
  shows "\<exists>k \<in> set ks. \<exists>u. start k u = (Inl e, t)"
  using assms
proof (induction ks arbitrary: s)
  case Nil
  then show ?case by (simp add: ret_def)
next
  case (Cons k ks)
  let ?f = "\<lambda>k (_ :: unit). andThen (gets (\<lambda>s. running s k \<noteq> None)) (\<lambda>r. if r then ret () else start k)"
  obtain x s1 where x: "?f k () s = (x, s1)" by (cases "?f k () s")
  show ?case
  proof (cases x)
    case (Inl e')
    with Cons.prems x have "start k s = (Inl e, t)"
      by (auto simp: andThen_Inl ret_def split: if_splits)
    then show ?thesis by auto
  next
    case (Inr u)
    with Cons.prems x have "forEach ks () ?f s1 = (Inl e, t)"
      by (cases u) (simp only: forEach.simps andThen_Inr)
    from Cons.IH [OF this] show ?thesis by auto
  qed
qed

end

section \<open>The consumers honour it\<close>

definition hookSubs :: "settings \<Rightarrow> 'a rt_state_scheme \<Rightarrow> (nat \<times> string) list" where
  "hookSubs cfg s = filter (\<lambda>(i, subject). subject = hookSubject cfg) (subs s)"

definition restPart where
  "restPart s = (files s, spawned s, modules s, moduleVersion s, importTable s, published s)"

definition reconcileInv where
  "reconcileInv cfg h r s \<longleftrightarrow> consumersInv cfg s \<and> hookSubs cfg s = h \<and> restPart s = r"

lemma consumersInvD:
  assumes "consumersInv cfg s"
  shows "mapInv (consumers s)" "distinct (map fst (subs s))" "(i, x) \<in> set (subs s) \<Longrightarrow> i < nextSid s"
    "x \<noteq> hookSubject cfg \<Longrightarrow> (i, x) \<in> set (subs s) \<longleftrightarrow>
       (\<exists>name. mapGet (consumers s) name = Some i \<and> x = execSubject cfg name)"
  using assms by (auto simp: consumersInv_def)

lemma cancelConsumer_state:
  "cancelConsumer name sid s =
     (Inr (), s\<lparr>subs := filter (\<lambda>(i, _). i \<noteq> sid) (subs s), consumers := mapDelete name (consumers s)\<rparr>)"
  by (simp add: cancelConsumer_def unsubscribe_def modify_def)

lemma subs_distinct: "distinct (map fst xs) \<Longrightarrow> (i, x) \<in> set xs \<Longrightarrow> (i, y) \<in> set xs \<Longrightarrow> x = y"
  by (metis eq_key_imp_eq_value)

lemma cancelConsumer_inv:
  assumes inv: "reconcileInv cfg h r s" and get: "mapGet (consumers s) name = Some sid"
  shows "reconcileInv cfg h r (snd (cancelConsumer name sid s))"
proof -
  let ?t = "snd (cancelConsumer name sid s)"
  have cinv: "consumersInv cfg s" using inv by (simp add: reconcileInv_def)
  note D = consumersInvD [OF cinv]
  have t: "subs ?t = filter (\<lambda>(i, _). i \<noteq> sid) (subs s)" "nextSid ?t = nextSid s"
    "consumers ?t = mapDelete name (consumers s)" "restPart ?t = restPart s"
    by (simp_all add: cancelConsumer_state restPart_def)
  have sub: "(sid, execSubject cfg name) \<in> set (subs s)" by (rule consumersInv_get [OF cinv get])
  have "i \<noteq> sid" if "(i, hookSubject cfg) \<in> set (subs s)" for i
    using subs_distinct [OF D(2) sub, of "hookSubject cfg"] that by auto
  then have "hookSubs cfg ?t = hookSubs cfg s"
    unfolding hookSubs_def t by (auto simp: intro!: filter_cong)
  moreover have "consumersInv cfg ?t"
    unfolding consumersInv_def t
  proof (intro conjI allI impI)
    show "mapInv (mapDelete name (consumers s))" by (rule jsm.ok_del [OF D(1)])
    show "distinct (map fst (filter (\<lambda>(i, _). i \<noteq> sid) (subs s)))" by (rule distinct_map_filter [OF D(2)])
    show "\<forall>(i, _) \<in> set (filter (\<lambda>(i, _). i \<noteq> sid) (subs s)). i < nextSid s" using D(3) by auto
    fix i x assume x: "x \<noteq> hookSubject cfg"
    have "i \<noteq> sid" if "mapGet (consumers s) n = Some i" "n \<noteq> name" for n
      using consumersInv_distinct [OF cinv, of n i name] get that by blast
    then show "(i, x) \<in> set (filter (\<lambda>(i, _). i \<noteq> sid) (subs s)) \<longleftrightarrow>
        (\<exists>n. mapGet (mapDelete name (consumers s)) n = Some i \<and> x = execSubject cfg n)"
      using D(4) [OF x, of i] get by (auto simp: mapGet_delete) (metis option.inject)
  qed
  ultimately show ?thesis using inv t(4) by (simp add: reconcileInv_def)
qed

lemma consumeFunction_Inr:
  assumes inv: "reconcileInv cfg h r s" and get: "mapGet (consumers s) name = None"
    and ok: "consumeFunction pf cfg name s = (Inr u, t)"
  shows "reconcileInv cfg h r t" "mapGet (consumers t) = (mapGet (consumers s))(name \<mapsto> nextSid s)"
proof -
  have cinv: "consumersInv cfg s" using inv by (simp add: reconcileInv_def)
  note D = consumersInvD [OF cinv]
  have t: "subs t = subs s @ [(nextSid s, execSubject cfg name)]" "nextSid t = Suc (nextSid s)"
    "consumers t = mapSet name (nextSid s) (consumers s)" "restPart t = restPart s"
    using ok by (auto simp: consumeFunction_def Let_def subscribe_def andThen_def modify_def logInfo_def
        restPart_def split: option.splits)
  show "mapGet (consumers t) = (mapGet (consumers s))(name \<mapsto> nextSid s)"
    by (simp add: t mapGet_set)
  have fresh: "(nextSid s, x) \<notin> set (subs s)" for x using D(3) [of "nextSid s" x] by auto
  have "consumersInv cfg t"
    unfolding consumersInv_def t
  proof (intro conjI allI impI)
    show "mapInv (mapSet name (nextSid s) (consumers s))" by (rule jsm.ok_put [OF D(1)])
    show "distinct (map fst (subs s @ [(nextSid s, execSubject cfg name)]))"
      using D(2) fresh by auto
    show "\<forall>(i, _) \<in> set (subs s @ [(nextSid s, execSubject cfg name)]). i < Suc (nextSid s)"
      using D(3) by (auto simp: less_Suc_eq)
    fix i x assume x: "x \<noteq> hookSubject cfg"
    have "mapGet (consumers s) n = Some i \<Longrightarrow> n \<noteq> name" for n using get by auto
    then show "(i, x) \<in> set (subs s @ [(nextSid s, execSubject cfg name)]) \<longleftrightarrow>
        (\<exists>n. mapGet (mapSet name (nextSid s) (consumers s)) n = Some i \<and> x = execSubject cfg n)"
      using D(4) [OF x, of i] by (auto simp: mapGet_set)
  qed
  moreover have "hookSubs cfg t = hookSubs cfg s" by (simp add: hookSubs_def t)
  ultimately show "reconcileInv cfg h r t" using inv t(4) by (simp add: reconcileInv_def)
qed

lemma consumeFunction_Inl: "consumeFunction pf cfg name s = (Inl e, t) \<Longrightarrow> t = s"
  by (auto simp: consumeFunction_def Let_def subscribe_def andThen_def modify_def logInfo_def
      split: option.splits)

interpretation rec: reconciler "\<lambda>s. mapGet (consumers s)" cancelConsumer "consumeFunction pf cfg"
    "reconcileInv cfg h r"
  for pf cfg h r
proof
  fix s :: "'a rt_state_scheme" and k v
  assume "reconcileInv cfg h r s" and "mapGet (consumers s) k = Some v"
  from cancelConsumer_inv [OF this]
  show "\<exists>t. cancelConsumer k v s = (Inr (), t) \<and> reconcileInv cfg h r t
      \<and> mapGet (consumers t) = (mapGet (consumers s))(k := None)"
    by (simp add: cancelConsumer_state mapGet_delete)
next
  fix s t :: "'a rt_state_scheme" and k u
  assume "reconcileInv cfg h r s" and "mapGet (consumers s) k = None"
    and "consumeFunction pf cfg k s = (Inr u, t)"
  from consumeFunction_Inr [OF this]
  show "reconcileInv cfg h r t \<and> (\<exists>v. mapGet (consumers t) = (mapGet (consumers s))(k \<mapsto> v))" by blast
next
  fix s t :: "'a rt_state_scheme" and k e
  assume "reconcileInv cfg h r s" and "consumeFunction pf cfg k s = (Inl e, t)"
  with consumeFunction_Inl [OF this(2)]
  show "reconcileInv cfg h r t \<and> mapGet (consumers t) = mapGet (consumers s)" by simp
qed

end
