(* ===== verification/Rt_Service.thy ===== *)
theory Rt_Service
  imports Rt_Consumer
begin

text \<open>
  What the consumers guarantee: after a reconciliation the functions on disk are exactly the
  ones listened for, a message is answered on the subject its caller waits on, and the hook
  survives every failure of a refresh.
\<close>

section \<open>Reconciliation\<close>

lemma startConsumers_loop:
  "startConsumers pf cfg ks = forEach ks () (\<lambda>k _. andThen (gets (\<lambda>s. mapGet (consumers s) k \<noteq> None))
     (\<lambda>r. if r then ret () else consumeFunction pf cfg k))"
  by (simp add: startConsumers_def mapHas_def)

lemma map_of_entries: "mapInv m \<Longrightarrow> (k, v) \<in> set m \<Longrightarrow> mapGet m k = Some v"
  by (simp add: mapInv_def mapKeys_def mapGet_def)

lemma mapGet_entry: "k \<in> fst ` set m \<longleftrightarrow> mapGet m k \<noteq> None"
  by (auto simp: mapGet_def map_of_eq_None_iff)

text \<open>The functions the runtime has on disk.\<close>

definition onDisk :: "platform \<Rightarrow> 'a os_scheme \<Rightarrow> string \<Rightarrow> bool" where
  "onDisk pf s n \<longleftrightarrow> functionName n \<and> dirEntry (runtimeFunctionsPath pf) s (n @ ''.ts'') \<noteq> None"

lemma dropConsumers_state:
  assumes ri: "reconcileInv cfg h r s"
  obtains u where "dropConsumers names (consumers s) s = (Inr (), u)" "reconcileInv cfg h r u"
    "mapGet (consumers u) = (\<lambda>n. if n \<in> set names then mapGet (consumers s) n else None)"
proof -
  have keys: "mapInv (consumers s)" using ri consumersInvD(1) by (auto simp: reconcileInv_def)
  then have "distinct (map fst (consumers s))" by (simp add: mapInv_def mapKeys_def)
  moreover have "\<forall>(k, v) \<in> set (consumers s). mapGet (consumers s) k = Some v"
    using map_of_entries [OF keys] by auto
  ultimately obtain u where u: "dropConsumers names (consumers s) s = (Inr (), u)"
    "reconcileInv cfg h r u"
    "mapGet (consumers u) = (\<lambda>k. if k \<in> fst ` set (consumers s) \<and> k \<notin> set names then None
        else mapGet (consumers s) k)"
    using rec.stop_loop [OF ri, of "consumers s" "set names"] unfolding dropConsumers_def by blast
  have "mapGet (consumers u) = (\<lambda>n. if n \<in> set names then mapGet (consumers s) n else None)"
    using u(3) by (auto simp: fun_eq_iff mapGet_entry)
  with u(1,2) show ?thesis by (rule that)
qed

lemma reconcile_steps:
  assumes fsI: "fsInv (files s)" and inv: "consumersInv cfg s"
    and run: "reconcileConsumers pf cfg s = (x, t)"
  obtains (list_error) e where "x = Inl e" "t = s" "listFunctions pf s = (Inl e, s)"
  | (reconciled) names u where "listFunctions pf s = (Inr names, s)"
      "\<And>n. n \<in> set names \<longleftrightarrow> onDisk pf s n"
      "reconcileInv cfg (hookSubs cfg s) (restPart s) u"
      "mapGet (consumers u) = (\<lambda>n. if n \<in> set names then mapGet (consumers s) n else None)"
      "startConsumers pf cfg names u = (x, t)"
proof (cases "fst (listFunctions pf s)")
  case (Inl e)
  then obtain v where "listFunctions pf s = (Inl e, v)" by (cases "listFunctions pf s") simp
  with listFunctions_outcome [OF fsI, of pf] have l: "listFunctions pf s = (Inl e, s)" by simp
  with run have "x = Inl e" "t = s" by (simp_all add: reconcileConsumers_def andThen_Inl)
  with l show ?thesis by (rule list_error [rotated 2])
next
  case (Inr names)
  then obtain v where l: "listFunctions pf s = (Inr names, v)" by (cases "listFunctions pf s") simp
  note ls = listFunctions_Inr [OF fsI l]
  from l ls(1) have l: "listFunctions pf s = (Inr names, s)" by simp
  let ?h = "hookSubs cfg s" and ?r = "restPart s"
  have ri: "reconcileInv cfg ?h ?r s" using inv by (simp add: reconcileInv_def)
  obtain u where u: "dropConsumers names (consumers s) s = (Inr (), u)" "reconcileInv cfg ?h ?r u"
    "mapGet (consumers u) = (\<lambda>n. if n \<in> set names then mapGet (consumers s) n else None)"
    by (rule dropConsumers_state [OF ri])
  have "startConsumers pf cfg names u = (x, t)"
    using run l u(1) newSet_id [OF ls(3)] by (simp add: reconcileConsumers_def andThen_Inr Let_def)
  moreover have "n \<in> set names \<longleftrightarrow> onDisk pf s n" for n using ls(4) by (simp add: onDisk_def)
  ultimately show ?thesis using reconciled [OF l _ u(2,3)] by blast
qed

lemma reconcile_keeps:
  assumes "fsInv (files s)" and "consumersInv cfg s" and "reconcileConsumers pf cfg s = (x, t)"
  shows "consumersInv cfg t" "hookSubs cfg t = hookSubs cfg s" "restPart t = restPart s"
    "onDisk pf s n \<Longrightarrow> mapGet (consumers s) n = Some i \<Longrightarrow> mapGet (consumers t) n = Some i"
    "x = Inr () \<Longrightarrow> mapGet (consumers t) n \<noteq> None \<longleftrightarrow> onDisk pf s n"
proof -
  have "consumersInv cfg t \<and> hookSubs cfg t = hookSubs cfg s \<and> restPart t = restPart s
    \<and> (onDisk pf s n \<longrightarrow> mapGet (consumers s) n = Some i \<longrightarrow> mapGet (consumers t) n = Some i)
    \<and> (x = Inr () \<longrightarrow> (mapGet (consumers t) n \<noteq> None \<longleftrightarrow> onDisk pf s n))"
    using assms
  proof (cases rule: reconcile_steps)
    case list_error
    with assms(2) show ?thesis by simp
  next
    case (reconciled names u)
    note st = rec.start_loop [OF reconciled(3) reconciled(5) [unfolded startConsumers_loop]]
    have "mapGet (consumers t) n \<noteq> None \<longleftrightarrow> onDisk pf s n" if "x = Inr ()"
      using st(3,4) [of n] reconciled(2) [of n] reconciled(4) that by auto
    moreover have "mapGet (consumers t) n = Some i" if "onDisk pf s n" "mapGet (consumers s) n = Some i"
      using st(2) [of n i] reconciled(2) [of n] reconciled(4) that by simp
    ultimately show ?thesis using st(1) by (simp add: reconcileInv_def)
  qed
  then show "consumersInv cfg t" "hookSubs cfg t = hookSubs cfg s" "restPart t = restPart s"
    "onDisk pf s n \<Longrightarrow> mapGet (consumers s) n = Some i \<Longrightarrow> mapGet (consumers t) n = Some i"
    "x = Inr () \<Longrightarrow> mapGet (consumers t) n \<noteq> None \<longleftrightarrow> onDisk pf s n" by blast+
qed

lemma reconcile_error:
  assumes "fsInv (files s)" and "consumersInv cfg s" and "reconcileConsumers pf cfg s = (Inl e, t)"
  shows "listFunctions pf s = (Inl e, s)
    \<or> (\<exists>n. onDisk pf s n \<and> natsSubscribe pf (execSubject cfg n) = Some e)"
  using assms
proof (cases rule: reconcile_steps)
  case (list_error e')
  then show ?thesis by simp
next
  case (reconciled names u)
  from rec.start_loop_error [OF reconciled(5) [unfolded startConsumers_loop]]
  obtain n v where n: "n \<in> set names" "consumeFunction pf cfg n v = (Inl e, t)" by blast
  then have "natsSubscribe pf (execSubject cfg n) = Some e"
    by (auto simp: consumeFunction_def Let_def subscribe_def andThen_def modify_def logInfo_def
        split: option.splits)
  with n(1) reconciled(2) show ?thesis by blast
qed

text \<open>How many live subscriptions a subject has.\<close>

definition liveOn :: "'a rt_state_scheme \<Rightarrow> string \<Rightarrow> nat" where
  "liveOn s subject = length (filter (\<lambda>(i, x). x = subject) (subs s))"

lemma liveOn_exec:
  assumes inv: "consumersInv cfg s"
  shows "liveOn s (execSubject cfg n) = (if mapGet (consumers s) n = None then 0 else 1)"
proof -
  let ?xs = "filter (\<lambda>(i, x). x = execSubject cfg n) (subs s)"
  note D = consumersInvD [OF inv]
  have mem: "(i, x) \<in> set ?xs \<longleftrightarrow> x = execSubject cfg n \<and> mapGet (consumers s) n = Some i" for i x
    using D(4) [OF execSubject_not_hook, of i n] by auto
  have "distinct ?xs" using D(2) by (simp add: distinct_map)
  then have len: "length ?xs = card (set ?xs)" by (rule distinct_card [symmetric])
  show ?thesis
  proof (cases "mapGet (consumers s) n")
    case None
    then have "set ?xs = {}" using mem by auto
    with len None show ?thesis by (simp add: liveOn_def)
  next
    case (Some i)
    then have "set ?xs = {(i, execSubject cfg n)}" using mem by (auto simp del: set_filter)
    with len Some show ?thesis by (simp add: liveOn_def)
  qed
qed

section \<open>Messages\<close>

text \<open>Publishing stops at the first chunk the connection refuses.\<close>

lemma publishAll_state:
  "snd (publishAll pf x g s) = s\<lparr>published := published s
     @ map (Pair x) (takeWhile (\<lambda>out. natsPublish pf x out = None) (yields g))\<rparr>"
  by (induction pf x g s rule: publishAll.induct) (auto split: option.splits)

lemma publishAll_outcome:
  assumes "\<forall>out \<in> set (yields g). natsPublish pf x out = None"
  shows "fst (publishAll pf x g s) =
    (case ending g of None \<Rightarrow> Waiting | Some None \<Rightarrow> Finished | Some (Some e) \<Rightarrow> Threw e)"
  using assms by (induction pf x g s rule: publishAll.induct) auto

lemma requestID_exec:
  assumes "CHR ''.'' \<notin> set (project cfg)" and "functionName name" and "CHR ''.'' \<notin> set r"
  shows "requestID (project cfg @ ''.'' @ name @ ''.exec.ts.'' @ r) = r"
proof -
  have "split CHR ''.'' (project cfg @ CHR ''.'' # name @ CHR ''.'' # ''exec'' @ CHR ''.'' # ''ts'' @ CHR ''.'' # r)
      = [project cfg, name, ''exec'', ''ts'', r]"
    using assms functionName_free(2) [OF assms(2)] by (simp add: split_append split_free del: append_Cons)
  then show ?thesis by (simp add: requestID_def)
qed

text \<open>A name or project with a dot in it shifts the parts.\<close>

lemma requestID_dotted:
  assumes "project cfg = p @ ''.'' @ q" and "CHR ''.'' \<notin> set p" and "CHR ''.'' \<notin> set q"
    and "functionName name" and "CHR ''.'' \<notin> set r"
  shows "requestID (project cfg @ ''.'' @ name @ ''.exec.ts.'' @ r) = ''ts''"
proof -
  have "split CHR ''.'' (p @ CHR ''.'' # q @ CHR ''.'' # name @ CHR ''.'' # ''exec'' @ CHR ''.'' # ''ts'' @ CHR ''.'' # r)
      = [p, q, name, ''exec'', ''ts'', r]"
    using assms functionName_free(2) [OF assms(4)] by (simp add: split_append split_free del: append_Cons)
  then show ?thesis by (simp add: requestID_def assms(1))
qed

text \<open>What one message is answered with, and whether its invocation ever ends.\<close>

definition answer :: "platform \<Rightarrow> fs \<Rightarrow> string \<Rightarrow> bytes \<Rightarrow> bytes gen" where
  "answer pf fs name data = invokeUncached pf fs name data None"

definition replies ::
    "platform \<Rightarrow> settings \<Rightarrow> fs \<Rightarrow> string \<Rightarrow> string \<times> bytes \<Rightarrow> (string \<times> bytes) list" where
  "replies pf cfg fs name msg =
     map (Pair (resSubject cfg name (requestID (fst msg)))) (yields (answer pf fs name (snd msg)))"

definition answered :: "platform \<Rightarrow> fs \<Rightarrow> string \<Rightarrow> string \<times> bytes \<Rightarrow> bool" where
  "answered pf fs name msg \<longleftrightarrow> ending (answer pf fs name (snd msg)) \<noteq> None"

definition acceptsAll :: "platform \<Rightarrow> bool" where
  "acceptsAll pf \<longleftrightarrow> (\<forall>x out. natsPublish pf x out = None)"

definition tablePart where
  "tablePart s = (consumers s, subs s, nextSid s)"

lemma invoke_tables:
  fixes s :: "'a rt_state_scheme"
  assumes "invokeModule pf name r p q s = (g, t)"
  shows "tablePart t = tablePart s" "published t = published s"
  using invokeModule_frame(5) [OF assms] by (cases s; cases t; simp add: tablePart_def)+

lemma loaderFresh_frame:
  assumes "loaderFresh pf s" and "files t = files s" and "modules t = modules s"
    and "moduleVersion t = moduleVersion s" and "importTable t = importTable s"
  shows "loaderFresh pf t"
  using assms by (simp add: loaderFresh_def)

lemma takeWhile_True: "takeWhile (\<lambda>x. True) xs = xs"
  by (induction xs) simp_all

lemma handleMessage_facts:
  assumes fresh: "loaderFresh pf s" and acc: "acceptsAll pf"
    and run: "handleMessage pf cfg name msg s = (go, t)"
  shows "published t = published s @ replies pf cfg (files s) name msg"
    "go = answered pf (files s) name msg" "loaderFresh pf t" "files t = files s"
    "tablePart t = tablePart s"
proof -
  obtain x d where msg: "msg = (x, d)" by (cases msg)
  obtain g u where inv: "invokeModule pf name (requestID x) d None s = (g, u)"
    by (cases "invokeModule pf name (requestID x) d None s")
  have g: "g = answer pf (files s) name d" and u: "loaderFresh pf u"
    using invoke_fresh [OF fresh, of name "requestID x" d None] inv by (simp_all add: answer_def)
  note fr = invokeModule_frame [OF inv] and tb = invoke_tables [OF inv]
  let ?x = "resSubject cfg name (requestID x)"
  obtain o1 v where pub: "publishAll pf ?x g u = (o1, v)" by (cases "publishAll pf ?x g u")
  have v: "v = u\<lparr>published := published u @ map (Pair ?x) (yields g)\<rparr>"
    using publishAll_state [of pf ?x g u] pub acc by (simp add: acceptsAll_def takeWhile_True)
  have o1: "o1 = (case ending g of None \<Rightarrow> Waiting | Some None \<Rightarrow> Finished | Some (Some e) \<Rightarrow> Threw e)"
    using publishAll_outcome [of g pf ?x u] pub acc by (simp add: acceptsAll_def)
  have t: "published t = published v \<and> files t = files v \<and> tablePart t = tablePart v
      \<and> modules t = modules v \<and> moduleVersion t = moduleVersion v \<and> importTable t = importTable v"
    and "go = (o1 \<noteq> Waiting)"
    using run unfolding handleMessage_def
    by (auto simp: msg inv pub Let_def logError_def modify_def tablePart_def split: drained.splits)
  with o1 show "go = answered pf (files s) name msg"
    by (auto simp: answered_def msg g split: option.splits)
  show "published t = published s @ replies pf cfg (files s) name msg"
    using t v tb(2) by (simp add: replies_def msg g)
  show "files t = files s" using t v fr(1) by simp
  show "tablePart t = tablePart s" using t v tb(1) by (simp add: tablePart_def)
  show "loaderFresh pf t" by (rule loaderFresh_frame [OF u]) (use t v in simp_all)
qed

text \<open>The messages a task gets to: up to and with the first whose invocation never ends.\<close>

definition reached :: "('m \<Rightarrow> bool) \<Rightarrow> 'm list \<Rightarrow> 'm list" where
  "reached ends msgs = takeWhile ends msgs @ take 1 (dropWhile ends msgs)"

lemma reached_simps [simp]:
  "reached P [] = []" "reached P (m # ms) = m # (if P m then reached P ms else [])"
  by (simp_all add: reached_def)

lemma consumerTask_published:
  assumes "loaderFresh pf s" and "acceptsAll pf"
  shows "published (consumerTask pf cfg name msgs s) =
    published s @ concat (map (replies pf cfg (files s) name)
      (reached (answered pf (files s) name) msgs))"
  using assms(1)
proof (induction msgs arbitrary: s)
  case Nil
  then show ?case by simp
next
  case (Cons m ms)
  obtain go t where h: "handleMessage pf cfg name m s = (go, t)" by (cases "handleMessage pf cfg name m s")
  note f = handleMessage_facts [OF Cons.prems assms(2) h]
  show ?case using Cons.IH [OF f(3)] f h by (cases go) simp_all
qed

section \<open>The hook\<close>

definition serviceInv :: "settings \<Rightarrow> 'a rt_state_scheme \<Rightarrow> bool" where
  "serviceInv cfg s \<longleftrightarrow> fsInv (files s) \<and> loaderInv s \<and> consumersInv cfg s"

lemma blind_facts [simp]:
  "osBlind (consumersInv cfg :: 'a rt_state_scheme \<Rightarrow> bool)" "osBlind loaderInv"
  "osBlind (\<lambda>s :: 'a rt_state_scheme. tablePart s = v)"
  by (simp_all add: osBlind_def consumersInv_def loaderInv_def tablePart_def)

lemma keeps_clear [keeps_rules]:
  "keeps (consumersInv cfg) clearModuleCache" "keeps loaderInv clearModuleCache"
  "keeps (\<lambda>s :: 'a rt_state_scheme. tablePart s = v) clearModuleCache"
proof -
  show "keeps loaderInv clearModuleCache"
    by (simp add: keeps_def clearModuleCache_def modify_def loaderInv_def) (metis le_SucI)
qed (simp_all add: keeps_def clearModuleCache_def modify_def consumersInv_def tablePart_def)

text \<open>What knows nothing of the operating system nor of the module cache survives a refresh.\<close>

lemma keeps_refresh:
  assumes "osBlind P" and "keeps P clearModuleCache"
  shows "keeps P (syncRuntimeFunctionsDir pf cfg src)" "keeps P (syncRepoAndReload pf cfg)"
proof -
  show *: "keeps P (syncRuntimeFunctionsDir pf cfg src)" for src
    unfolding sync_refill by (intro keeps_rules assms)
  show "keeps P (syncRepoAndReload pf cfg)"
    unfolding syncRepoAndReload_def by (intro keeps_rules assms *)
qed

lemma keeps_conj: "keeps P m \<Longrightarrow> keeps Q m \<Longrightarrow> keeps (\<lambda>s. P s \<and> Q s) m"
  by (auto simp: keeps_def)

lemma refresh_inv:
  assumes "commandsTidy pf"
  shows "keeps (serviceInv cfg) (syncRepoAndReload pf cfg)"
  unfolding serviceInv_def
  by (intro keeps_conj sync_fsInv(2) [OF assms] keeps_refresh(2) keeps_clear blind_facts)

text \<open>A successful refresh, from the state its clone was brought up to date in.\<close>

lemma refresh_okE:
  assumes "syncRepoAndReload pf cfg s = (Inr u, t)" and "commandsTidy pf"
    and "fsInv (files s)" and "loaderInv s"
  obtains s' where "syncRuntimeFunctionsDir pf cfg (repoFunctionsPath cfg) s' = (Inr u, t)"
    "fsInv (files s')" "loaderInv s'" "loaderPart s' = loaderPart s"
    "\<exists>s0 w. syncRepo pf cfg s0 = (Inr w, s')"
proof -
  obtain s0 v where l: "logInfo ''syncing repo'' [(''project'', project cfg),
      (''repo_url'', vcsBaseURL cfg @ ''/'' @ gitUser cfg @ ''/'' @ project cfg)] s = (Inr v, s0)"
    and rest: "andThen (syncRepo pf cfg) (\<lambda>_. syncRuntimeFunctionsDir pf cfg (repoFunctionsPath cfg)) s0
      = (Inr u, t)"
    using assms(1) unfolding syncRepoAndReload_def by (rule andThen_okE)
  obtain s1 w where r: "syncRepo pf cfg s0 = (Inr w, s1)"
    and sy: "syncRuntimeFunctionsDir pf cfg (repoFunctionsPath cfg) s1 = (Inr u, t)"
    using rest by (rule andThen_okE)
  have s0: "fsInv (files s0)" "loaderInv s0" "loaderPart s0 = loaderPart s"
    using l assms(3,4) by (auto simp: logInfo_def modify_def loaderInv_def loaderPart_def)
  show ?thesis
  proof
    show "syncRuntimeFunctionsDir pf cfg (repoFunctionsPath cfg) s1 = (Inr u, t)" by (fact sy)
    show "fsInv (files s1)" using keepsD [OF syncRepo_fsInv [OF assms(2)] s0(1) r] .
    show "loaderInv s1" using keepsD [OF keeps_syncRepo [OF blind_facts(2)] s0(2) r] .
    show "loaderPart s1 = loaderPart s"
      using keepsD [OF keeps_syncRepo [OF loaderPart_blind] s0(3) r] .
    show "\<exists>s0 w. syncRepo pf cfg s0 = (Inr w, s1)" using r by blast
  qed
qed

lemma refresh_fresh_state:
  assumes "installed pf" and "syncRepoAndReload pf cfg s = (Inr u, t)" and "commandsTidy pf"
    and "fsInv (files s)" and "loaderInv s"
  shows "loaderFresh pf t"
proof -
  obtain s' where "syncRuntimeFunctionsDir pf cfg (repoFunctionsPath cfg) s' = (Inr u, t)"
    "fsInv (files s')" "loaderInv s'" using refresh_okE [OF assms(2-5)] by blast
  from sync_serves(1) [OF assms(1) this(2,3,1)] show ?thesis .
qed

lemma restPartD:
  assumes "restPart t = restPart s"
  shows "files t = files s" "modules t = modules s" "moduleVersion t = moduleVersion s"
    "importTable t = importTable s" "published t = published s" "spawned t = spawned s"
  using assms by (simp_all add: restPart_def)

lemma reconcile_inv:
  assumes "serviceInv cfg s" and "reconcileConsumers pf cfg s = (x, t)"
  shows "serviceInv cfg t"
proof -
  have s: "fsInv (files s)" "consumersInv cfg s" "loaderInv s" using assms(1) by (simp_all add: serviceInv_def)
  note k = reconcile_keeps [OF s(1,2) assms(2)]
  with s(1,3) restPartD [OF k(3)] show ?thesis by (simp add: serviceInv_def loaderInv_def)
qed

lemma serviceInv_log:
  "serviceInv cfg s \<Longrightarrow> serviceInv cfg (s\<lparr>console := c\<rparr>)"
  by (simp add: serviceInv_def loaderInv_def consumersInv_def)

text \<open>The runtime serves exactly the functions on disk, from the files on disk.\<close>

definition upToDate :: "platform \<Rightarrow> settings \<Rightarrow> 'a rt_state_scheme \<Rightarrow> bool" where
  "upToDate pf cfg s \<longleftrightarrow> loaderFresh pf s
     \<and> (\<forall>n. liveOn s (execSubject cfg n) = (if onDisk pf s n then 1 else 0))"

lemma upToDate_log: "upToDate pf cfg s \<Longrightarrow> upToDate pf cfg (s\<lparr>console := c\<rparr>)"
  by (simp add: upToDate_def loaderFresh_def liveOn_def onDisk_def dirEntry_def)

lemma refresh_reconcile:
  assumes "installed pf" and tidy: "commandsTidy pf" and inv: "serviceInv cfg s"
    and sy: "syncRepoAndReload pf cfg s = (Inr u, s1)" and rc: "reconcileConsumers pf cfg s1 = (Inr v, t)"
  shows "upToDate pf cfg t"
proof -
  have s1: "serviceInv cfg s1" by (rule keepsD [OF refresh_inv [OF tidy] inv sy])
  then have s1': "fsInv (files s1)" "consumersInv cfg s1" by (simp_all add: serviceInv_def)
  note k = reconcile_keeps [OF s1' rc]
  note r = restPartD [OF k(3)]
  have "loaderFresh pf s1"
    using refresh_fresh_state [OF assms(1) sy tidy] inv by (simp add: serviceInv_def)
  then have "loaderFresh pf t" by (rule loaderFresh_frame [OF _ r(1-4)])
  moreover have "liveOn t (execSubject cfg n) = (if onDisk pf t n then 1 else 0)" for n
    using liveOn_exec [OF k(1), of n] k(5) [of n] r(1) by (auto simp: onDisk_def dirEntry_def)
  ultimately show ?thesis by (simp add: upToDate_def)
qed

lemma handleHook_cases:
  assumes "installed pf" and tidy: "commandsTidy pf" and inv: "serviceInv cfg s"
  shows "\<exists>t. handleHook pf cfg msg s = (Inr (), t) \<and> serviceInv cfg t
    \<and> (upToDate pf cfg t \<and> last (console t) = Info ''runtime code refreshed via hook'' [(''project'', project cfg)]
       \<or> (\<exists>e. last (console t) = Error ''failed to refresh runtime code''
            [(''project'', project cfg), (''error'', err_string e)]))"
proof -
  let ?l = "logInfo ''ts hook received'' [(''project'', project cfg), (''subject'', fst msg),
    (''payload'', textDecode (snd msg))]"
  define s0 where "s0 = snd (?l s)"
  have l: "?l s = (Inr (), s0)" and s0: "serviceInv cfg s0"
    using inv by (simp_all add: s0_def logInfo_def modify_def serviceInv_log)
  obtain x s1 where sy: "syncRepoAndReload pf cfg s0 = (x, s1)" by (cases "syncRepoAndReload pf cfg s0")
  have s1: "serviceInv cfg s1" by (rule keepsD [OF refresh_inv [OF tidy] s0 sy])
  show ?thesis
  proof (cases x)
    case (Inl e)
    with l sy s1 show ?thesis
      by (auto simp: handleHook_def tryCatch_def andThen_Inr andThen_Inl logError_def modify_def
          serviceInv_log)
  next
    case (Inr u)
    obtain y s2 where rc: "reconcileConsumers pf cfg s1 = (y, s2)" by (cases "reconcileConsumers pf cfg s1")
    have s2: "serviceInv cfg s2" by (rule reconcile_inv [OF s1 rc])
    show ?thesis
    proof (cases y)
      case (Inl e)
      with l sy Inr rc s2 show ?thesis
        by (auto simp: handleHook_def tryCatch_def andThen_Inr andThen_Inl logError_def modify_def
            serviceInv_log)
    next
      case y: (Inr v)
      have "upToDate pf cfg s2"
        using refresh_reconcile [OF assms(1) tidy s0] sy rc Inr y by blast
      with l sy Inr rc y s2 show ?thesis
        by (auto simp: handleHook_def tryCatch_def andThen_Inr logInfo_def modify_def
            serviceInv_log upToDate_log)
    qed
  qed
qed

lemma hookTask_total:
  assumes "installed pf" and "commandsTidy pf" and "serviceInv cfg s"
  shows "\<exists>t. hookTask pf cfg msgs s = (Inr (), t) \<and> serviceInv cfg t"
  using assms(3)
proof (induction msgs arbitrary: s)
  case Nil
  then show ?case by (simp add: hookTask_def ret_def)
next
  case (Cons m ms)
  from handleHook_cases [OF assms(1,2) Cons.prems, of m] obtain u where
    u: "handleHook pf cfg m s = (Inr (), u)" "serviceInv cfg u" by blast
  from Cons.IH [OF u(2)] u(1) show ?case by (auto simp: hookTask_def andThen_Inr)
qed

lemma demo_accepts: "acceptsAll demoPlatform"
  by (simp add: acceptsAll_def demoPlatform_def)

end
