(* ===== verification/Rt_State.thy ===== *)
theory Rt_State
  imports Rt_Service
begin

text \<open>
  \<^verbatim>\<open>runtimes/ts/pkg/state.ts\<close>: connecting to NATS and making sure that the project's stream
  exists. The object that is returned holds the connection and its JetStream client; the
  subscriptions and publications of the connection are part of the process state.
\<close>

section \<open>AppState.new\<close>

datatype nats_connection = NatsConnection (natsServer: string)

datatype jetstream_client = JetStreamClient (jsConnection: nats_connection)

record app_state =
  nc :: nats_connection
  js :: jetstream_client

text \<open>A call of the client library that returns nothing the code looks at, or throws.\<close>

definition attempt :: "js_error option \<Rightarrow> ('s, unit) act" where
  "attempt r = (case r of None \<Rightarrow> ret () | Some e \<Rightarrow> throw e)"

definition streamExists :: "js_error \<Rightarrow> bool" where
  "streamExists err =
     (let text = toLowerCase (err_string err) in
      \<not> (\<not> contains text ''name already in use'' \<and> \<not> contains text ''stream name already in use''))"

definition appStateNew :: "platform \<Rightarrow> settings \<Rightarrow> ('a os_scheme, app_state) act" where
  "appStateNew pf cfg =
     andThen (attempt (natsConnect pf (natsURL cfg))) (\<lambda>_.
     let conn = NatsConnection (natsURL cfg) in
     andThen (attempt (natsManager pf)) (\<lambda>_.
     andThen
       (tryCatch (attempt (streamsAdd pf (project cfg) [project cfg @ ''.>'']))
          (\<lambda>err. if \<not> streamExists err then throw err else ret ())) (\<lambda>_.
     andThen (logInfo ''settings''
       [(''project'', project cfg), (''nats_url'', natsURL cfg),
        (''http_port'', showInt (httpPort cfg)), (''vcs_base_url'', vcsBaseURL cfg),
        (''git_user'', gitUser cfg)]) (\<lambda>_.
     ret \<lparr>nc = conn, js = JetStreamClient conn\<rparr>))))"

section \<open>Which failures are tolerated\<close>

lemma attempt_simps [simp]: "attempt None = ret ()" "attempt (Some e) = throw e"
  by (simp_all add: attempt_def)

text \<open>The second of the two texts contains the first, so only the first decides.\<close>

lemma streamExists_iff: "streamExists err \<longleftrightarrow> contains (toLowerCase (err_string err)) ''name already in use''"
proof -
  have "contains ''stream name already in use'' ''name already in use''" by simp
  then show ?thesis unfolding streamExists_def Let_def using contains_trans by blast
qed

lemma keeps_attempt [keeps_rules]: "keeps P (attempt r)"
  by (cases r) (simp_all add: keeps_rules)

lemma keeps_appStateNew [keeps_rules]: "osBlind P \<Longrightarrow> keeps P (appStateNew pf cfg)"
  unfolding appStateNew_def Let_def by (intro keeps_rules)

lemma appStateNew_cases:
  "appStateNew pf cfg s =
     (case natsConnect pf (natsURL cfg) of
        Some e \<Rightarrow> (Inl e, s)
      | None \<Rightarrow>
          (case natsManager pf of
             Some e \<Rightarrow> (Inl e, s)
           | None \<Rightarrow>
               (case streamsAdd pf (project cfg) [project cfg @ ''.>''] of
                  Some e \<Rightarrow> if streamExists e then (Inr \<lparr>nc = NatsConnection (natsURL cfg),
                        js = JetStreamClient (NatsConnection (natsURL cfg))\<rparr>,
                      s\<lparr>console := console s @ [Info ''settings''
                        [(''project'', project cfg), (''nats_url'', natsURL cfg),
                         (''http_port'', showInt (httpPort cfg)), (''vcs_base_url'', vcsBaseURL cfg),
                         (''git_user'', gitUser cfg)]]\<rparr>)
                      else (Inl e, s)
                | None \<Rightarrow> (Inr \<lparr>nc = NatsConnection (natsURL cfg),
                        js = JetStreamClient (NatsConnection (natsURL cfg))\<rparr>,
                      s\<lparr>console := console s @ [Info ''settings''
                        [(''project'', project cfg), (''nats_url'', natsURL cfg),
                         (''http_port'', showInt (httpPort cfg)), (''vcs_base_url'', vcsBaseURL cfg),
                         (''git_user'', gitUser cfg)]]\<rparr>))))"
  by (simp add: appStateNew_def Let_def andThen_def tryCatch_def ret_def throw_def logInfo_def
      modify_def split: option.splits)

end
