(* ===== verification/Rt_Main.thy ===== *)
theory Rt_Main
  imports Rt_State
begin

text \<open>
  \<^verbatim>\<open>runtimes/ts/main.ts\<close>: the synchronous mode, in which an HTTP request is answered with
  the first chunk of an invocation, and the boot sequence with its fatal exit.
\<close>

section \<open>Synchronous requests\<close>

record http_response =
  status :: nat
  rspHeaders :: "(string \<times> string) list"
  rspBody :: bytes

definition textResponse :: "string \<Rightarrow> nat \<Rightarrow> http_response" where
  "textResponse text code = \<lparr>status = code, rspHeaders = [], rspBody = textEncode text\<rparr>"

text \<open>\<^verbatim>\<open>req.headers.get("X-Litefunction-Name") || settings.name\<close>\<close>

definition requestedName :: "settings \<Rightarrow> http_request \<Rightarrow> string" where
  "requestedName cfg req =
     (case headersGet req ''X-Litefunction-Name'' of
        Some v \<Rightarrow> if v \<noteq> [] then v else settingsName cfg
      | None \<Rightarrow> settingsName cfg)"

text \<open>The \<^verbatim>\<open>for await\<close> loop that stops after one chunk.\<close>

fun firstChunk :: "bytes gen \<Rightarrow> bytes option settled" where
  "firstChunk (Yield out g) = Resolved (Some out)"
| "firstChunk Done = Resolved None"
| "firstChunk (Fail e) = Rejected e"
| "firstChunk Stuck = Pending"

definition handleSyncRequest ::
    "platform \<Rightarrow> settings \<Rightarrow> http_request \<Rightarrow> 'a rt_state_scheme \<Rightarrow>
     http_response settled \<times> 'a rt_state_scheme" where
  "handleSyncRequest pf cfg req s =
     (let name = requestedName cfg req in
      if name = [] then (Resolved (textResponse ''function name not provided'' 400), s)
      else
        (case consumeBody req of
           (Inl e, req') \<Rightarrow> (Rejected e, s)
         | (Inr body, req') \<Rightarrow>
             (case invokeModule pf name [] body (Some req') s of
                (g, t) \<Rightarrow>
                  (case firstChunk g of
                     Pending \<Rightarrow> (Pending, t)
                   | Resolved first \<Rightarrow>
                       (Resolved \<lparr>status = 200,
                          rspHeaders = [(''content-type'', ''application/json'')],
                          rspBody = (case first of Some out \<Rightarrow> out | None \<Rightarrow> [])\<rparr>, t)
                   | Rejected err \<Rightarrow>
                       if contains (err_string err) ''not found'' then
                         (Resolved (textResponse
                            (''function '' @ [CHR 0x27] @ name @ [CHR 0x27] @ '' not found'') 404), t)
                       else
                         (Resolved (textResponse (err_string err) 500),
                          snd (logError ''sync invoke failed''
                            [(''project'', project cfg), (''function'', name),
                             (''error'', err_string err)] t))))))"

section \<open>Boot\<close>

text \<open>The whole process: the port it serves, and the code it has exited with.\<close>

record proc_state = rt_state +
  listening :: "int option"
  exitCode :: "int option"

definition serve :: "platform \<Rightarrow> settings \<Rightarrow> ('a proc_state_scheme, unit) act" where
  "serve pf cfg =
     andThen (attempt (bunServe pf (httpPort cfg))) (\<lambda>_.
     modify (\<lambda>s. s\<lparr>listening := Some (httpPort cfg)\<rparr>))"

definition main :: "platform \<Rightarrow> settings \<Rightarrow> ('a proc_state_scheme, unit) act" where
  "main pf cfg =
     andThen (ensureRuntimeDir pf) (\<lambda>_.
     andThen (appStateNew pf cfg) (\<lambda>_.
     andThen (syncRepoAndReload pf cfg) (\<lambda>_.
     andThen (reconcileConsumers pf cfg) (\<lambda>_.
     andThen (watchTSHook pf cfg) (\<lambda>_.
     andThen (serve pf cfg) (\<lambda>_.
     logInfo ''bun runtime listening''
       [(''project'', project cfg), (''port'', showInt (httpPort cfg))]))))))"

definition runMain :: "platform \<Rightarrow> settings \<Rightarrow> ('a proc_state_scheme, unit) act" where
  "runMain pf cfg =
     tryCatch (main pf cfg) (\<lambda>err.
       modify (\<lambda>s. s\<lparr>console := console s @ [Fatal ''runtime boot failed'' err],
                      exitCode := Some 1\<rparr>))"

text \<open>The state before the first line of \<^verbatim>\<open>main\<close>: module variables have their initial values.\<close>

definition initialState :: "fs \<Rightarrow> proc_state" where
  "initialState fs =
     \<lparr>files = fs, console = [], spawned = [],
      modules = [], moduleVersion = 1, importTable = [],
      consumers = [], subs = [], nextSid = 1, published = [],
      listening = None, exitCode = None\<rparr>"

section \<open>The synchronous mode\<close>

lemma requestedName_header:
  "headersGet req ''X-Litefunction-Name'' = Some v \<Longrightarrow> v \<noteq> [] \<Longrightarrow> requestedName cfg req = v"
  by (simp add: requestedName_def)

text \<open>The result of a request to a fresh loader, in terms of the files alone.\<close>

definition syncChunk :: "platform \<Rightarrow> fs \<Rightarrow> string \<Rightarrow> bytes \<Rightarrow> http_request \<Rightarrow> bytes option settled" where
  "syncChunk pf fs name body req = firstChunk (invokeUncached pf fs name body (Some req))"

lemma handleSyncRequest_unnamed:
  "requestedName cfg req = [] \<Longrightarrow>
     handleSyncRequest pf cfg req s = (Resolved (textResponse ''function name not provided'' 400), s)"
  by (simp add: handleSyncRequest_def)

lemma handleSyncRequest_fresh:
  assumes fresh: "loaderFresh pf s" and name: "requestedName cfg req \<noteq> []"
    and body: "consumeBody req = (Inr body, req')"
  shows "fst (handleSyncRequest pf cfg req s) =
    (case syncChunk pf (files s) (requestedName cfg req) body req' of
       Pending \<Rightarrow> Pending
     | Resolved first \<Rightarrow>
         Resolved \<lparr>status = 200, rspHeaders = [(''content-type'', ''application/json'')],
           rspBody = (case first of Some out \<Rightarrow> out | None \<Rightarrow> [])\<rparr>
     | Rejected err \<Rightarrow>
         if contains (err_string err) ''not found''
         then Resolved (textResponse (''function '' @ [CHR 0x27] @ requestedName cfg req @ [CHR 0x27]
                @ '' not found'') 404)
         else Resolved (textResponse (err_string err) 500))"
proof -
  obtain g t where inv: "invokeModule pf (requestedName cfg req) [] body (Some req') s = (g, t)"
    by (cases "invokeModule pf (requestedName cfg req) [] body (Some req') s")
  have "g = invokeUncached pf (files s) (requestedName cfg req) body (Some req')"
    using invoke_fresh(1) [OF fresh, of "requestedName cfg req" "[]" body "Some req'"] inv by simp
  then show ?thesis
    using name body inv by (simp add: handleSyncRequest_def Let_def syncChunk_def split: settled.splits)
qed

lemma handleSyncRequest_frame:
  fixes s :: "'a rt_state_scheme"
  assumes "handleSyncRequest pf cfg req s = (r, t)"
  shows "files t = files s" "tablePart t = tablePart s" "published t = published s"
    "loaderInv s \<Longrightarrow> loaderInv t" "loaderFresh pf s \<Longrightarrow> loaderFresh pf t"
proof -
  let ?n = "requestedName cfg req"
  have "t = s \<or> (\<exists>body req' c. t = (snd (invokeModule pf ?n [] body (Some req') s))\<lparr>console := c\<rparr>)"
  proof (cases "?n = [] \<or> (\<exists>e. fst (consumeBody req) = Inl e)")
    case True
    with assms show ?thesis
      by (auto simp: handleSyncRequest_def Let_def split: prod.splits sum.splits if_splits)
  next
    case False
    then obtain body req' where c: "?n \<noteq> []" "consumeBody req = (Inr body, req')"
      by (cases "consumeBody req"; cases "fst (consumeBody req)") auto
    obtain g u where inv: "invokeModule pf ?n [] body (Some req') s = (g, u)"
      by (cases "invokeModule pf ?n [] body (Some req') s")
    have "\<exists>c. t = u\<lparr>console := c\<rparr>"
    proof (cases "firstChunk g")
      case (Rejected err)
      with assms c inv show ?thesis
        by (cases "contains (err_string err) ''not found''")
          (auto simp: handleSyncRequest_def Let_def logError_def modify_def intro: exI [of _ "console u"])
    qed (use assms c inv in \<open>auto simp: handleSyncRequest_def Let_def intro: exI [of _ "console u"]\<close>)
    then show ?thesis using inv by (metis snd_conv)
  qed
  moreover have "files (u\<lparr>console := c\<rparr>) = files s \<and> tablePart (u\<lparr>console := c\<rparr>) = tablePart s
      \<and> published (u\<lparr>console := c\<rparr>) = published s
      \<and> (loaderInv s \<longrightarrow> loaderInv (u\<lparr>console := c\<rparr>))
      \<and> (loaderFresh pf s \<longrightarrow> loaderFresh pf (u\<lparr>console := c\<rparr>))"
    if u: "u = snd (invokeModule pf ?n [] body (Some req') s)" for u :: "'a rt_state_scheme" and body req' c
  proof -
    obtain g where inv: "invokeModule pf ?n [] body (Some req') s = (g, u)"
      using u by (metis prod.collapse)
    have "loaderInv s \<longrightarrow> loaderInv u" "loaderFresh pf s \<longrightarrow> loaderFresh pf u"
      unfolding u using invoke_inv invoke_fresh(2) by blast+
    moreover have "loaderInv (u\<lparr>console := c\<rparr>) = loaderInv u" "loaderFresh pf (u\<lparr>console := c\<rparr>) = loaderFresh pf u"
      by (simp_all add: loaderInv_def loaderFresh_def)
    moreover have "tablePart (u\<lparr>console := c\<rparr>) = tablePart u" by (simp add: tablePart_def)
    ultimately show ?thesis
      using invokeModule_frame(1) [OF inv] invoke_tables [OF inv] by simp
  qed
  ultimately show "files t = files s" "tablePart t = tablePart s" "published t = published s"
    "loaderInv s \<Longrightarrow> loaderInv t" "loaderFresh pf s \<Longrightarrow> loaderFresh pf t" by blast+
qed

section \<open>Booting\<close>

lemma keeps_case_prod [keeps_rules]:
  "(\<And>a b. keeps P (f a b)) \<Longrightarrow> keeps P (case x of (a, b) \<Rightarrow> f a b)"
  "(\<And>a b. keeps P (g a b y)) \<Longrightarrow> keeps P ((case x of (a, b) \<Rightarrow> g a b) y)"
  by (cases x, simp)+

text \<open>What only \<^verbatim>\<open>serve\<close> and the exit touch.\<close>

definition procPart where
  "procPart s = (listening s, exitCode s)"

lemma procPart_blind [simp]: "osBlind (\<lambda>s :: 'a proc_state_scheme. procPart s = v)"
  by (simp add: osBlind_def procPart_def)

lemma keeps_procPart [keeps_rules]:
  "keeps (\<lambda>s :: 'a proc_state_scheme. procPart s = v) clearModuleCache"
  "keeps (\<lambda>s :: 'a proc_state_scheme. procPart s = v) (subscribe pf x)"
  "keeps (\<lambda>s :: 'a proc_state_scheme. procPart s = v) (unsubscribe i)"
  "keeps (\<lambda>s :: 'a proc_state_scheme. procPart s = v) (modify (\<lambda>s. s\<lparr>consumers := c s\<rparr>))"
  by (auto simp: keeps_def clearModuleCache_def subscribe_def unsubscribe_def modify_def
      procPart_def split: option.splits)

lemma keeps_procPart_steps [keeps_rules]:
  "keeps (\<lambda>s :: 'a proc_state_scheme. procPart s = v) (syncRepoAndReload pf cfg)"
  "keeps (\<lambda>s :: 'a proc_state_scheme. procPart s = v) (reconcileConsumers pf cfg)"
  "keeps (\<lambda>s :: 'a proc_state_scheme. procPart s = v) (watchTSHook pf cfg)"
  "keeps (\<lambda>s :: 'a proc_state_scheme. procPart s = v) (ensureRuntimeDir pf)"
  "keeps (\<lambda>s :: 'a proc_state_scheme. procPart s = v) (appStateNew pf cfg)"
  unfolding reconcileConsumers_def dropConsumers_def startConsumers_def cancelConsumer_def
    consumeFunction_def watchTSHook_def ensureRuntimeDir_def Let_def
  by (rule keeps_refresh(2) [OF procPart_blind keeps_procPart(1)]
      | (intro keeps_rules procPart_blind; simp add: procPart_def)
      | (intro keeps_rules procPart_blind))+

lemma watchTSHook_cases:
  "watchTSHook pf cfg s =
     (let c = console s @ [Info ''ts hook listener started''
                [(''project'', project cfg), (''subjects'', hookSubject cfg)]] in
      case natsSubscribe pf (hookSubject cfg) of
        Some e \<Rightarrow> (Inl e, s\<lparr>console := c\<rparr>)
      | None \<Rightarrow> (Inr (), s\<lparr>console := c, subs := subs s @ [(nextSid s, hookSubject cfg)],
                          nextSid := Suc (nextSid s)\<rparr>))"
  by (simp add: watchTSHook_def Let_def andThen_def logInfo_def modify_def subscribe_def ret_def
      split: option.splits)

lemma watchTSHook_Inr:
  assumes inv: "serviceInv cfg s" and ok: "watchTSHook pf cfg s = (Inr u, t)"
  shows "serviceInv cfg t" "upToDate pf cfg s \<Longrightarrow> upToDate pf cfg t"
    "hookSubs cfg t = hookSubs cfg s @ [(nextSid s, hookSubject cfg)]"
proof -
  let ?e = "(nextSid s, hookSubject cfg)"
  have t: "files t = files s" "modules t = modules s" "moduleVersion t = moduleVersion s"
    "importTable t = importTable s" "consumers t = consumers s" "subs t = subs s @ [?e]"
    "nextSid t = Suc (nextSid s)"
    using ok by (auto simp: watchTSHook_cases Let_def split: option.splits)
  have "consumersInv cfg s" using inv by (simp add: serviceInv_def)
  note D = consumersInvD [OF this]
  have fresh: "(nextSid s, x) \<notin> set (subs s)" for x using D(3) [of "nextSid s" x] by auto
  have "consumersInv cfg t"
    unfolding consumersInv_def t
  proof (intro conjI allI impI)
    show "mapInv (consumers s)" by (rule D(1))
    show "distinct (map fst (subs s @ [?e]))" using D(2) fresh by auto
    show "\<forall>(i, _) \<in> set (subs s @ [?e]). i < Suc (nextSid s)" using D(3) by (auto simp: less_Suc_eq)
    show "(i, x) \<in> set (subs s @ [?e]) \<longleftrightarrow>
        (\<exists>n. mapGet (consumers s) n = Some i \<and> x = execSubject cfg n)" if "x \<noteq> hookSubject cfg" for i x
      using D(4) [OF that, of i] that by auto
  qed
  then show "serviceInv cfg t" using inv t by (simp add: serviceInv_def loaderInv_def)
  show "upToDate pf cfg s \<Longrightarrow> upToDate pf cfg t"
    using execSubject_not_hook [of cfg, symmetric]
    by (simp add: upToDate_def loaderFresh_def liveOn_def onDisk_def dirEntry_def t)
  show "hookSubs cfg t = hookSubs cfg s @ [?e]" by (simp add: hookSubs_def t)
qed

lemma initial_serviceInv: "fsInv fs \<Longrightarrow> serviceInv cfg (initialState fs)"
  by (simp add: serviceInv_def initialState_def loaderInv_def consumersInv_def)

lemma ensure_app_inv:
  assumes "serviceInv cfg s"
  shows "serviceInv cfg (snd (ensureRuntimeDir pf s))" "serviceInv cfg (snd (appStateNew pf cfg s))"
    "hookSubs cfg (snd (ensureRuntimeDir pf s)) = hookSubs cfg s"
    "hookSubs cfg (snd (appStateNew pf cfg s)) = hookSubs cfg s"
  using assms fsMkdir_Inr(1)
  by (auto simp: serviceInv_def ensureRuntimeDir_def onFiles_def appStateNew_cases loaderInv_def
      consumersInv_def hookSubs_def split: sum.splits option.splits)

lemma main_okE:
  assumes "installed pf" and tidy: "commandsTidy pf" and inv: "serviceInv cfg s"
    and ok: "main pf cfg s = (Inr u, t)"
  shows "serviceInv cfg t" "upToDate pf cfg t" "listening t = Some (httpPort cfg)" "exitCode t = exitCode s"
    "liveOn t (hookSubject cfg) = Suc (liveOn s (hookSubject cfg))"
proof -
  from ok obtain s1 a s2 s3 s4 s5 s6 where
    e: "ensureRuntimeDir pf s = (Inr (), s1)" and n: "appStateNew pf cfg s1 = (Inr a, s2)"
    and y: "syncRepoAndReload pf cfg s2 = (Inr (), s3)" and r: "reconcileConsumers pf cfg s3 = (Inr (), s4)"
    and w: "watchTSHook pf cfg s4 = (Inr (), s5)" and v: "serve pf cfg s5 = (Inr (), s6)"
    and l: "logInfo ''bun runtime listening''
       [(''project'', project cfg), (''port'', showInt (httpPort cfg))] s6 = (Inr u, t)"
    unfolding main_def by (auto elim!: andThen_okE)
  have s2: "serviceInv cfg s2" "hookSubs cfg s2 = hookSubs cfg s"
    using ensure_app_inv(1,3) [OF inv, of pf] ensure_app_inv(2,4) [of cfg s1 pf] e n by simp_all
  have s3: "serviceInv cfg s3" by (rule keepsD [OF refresh_inv [OF tidy] s2(1) y])
  have "tablePart s3 = tablePart s2"
    using keepsD [OF keeps_refresh(2) [OF blind_facts(3) keeps_clear(3)] refl y] .
  then have h3: "hookSubs cfg s3 = hookSubs cfg s" using s2(2) by (simp add: tablePart_def hookSubs_def)
  have s3': "fsInv (files s3)" "consumersInv cfg s3" using s3 by (simp_all add: serviceInv_def)
  have h4: "hookSubs cfg s4 = hookSubs cfg s" using reconcile_keeps(2) [OF s3' r] h3 by simp
  have s4: "serviceInv cfg s4" by (rule reconcile_inv [OF s3 r])
  have u4: "upToDate pf cfg s4" by (rule refresh_reconcile [OF assms(1) tidy s2(1) y r])
  note s5 = watchTSHook_Inr [OF s4 w]
  obtain c where t: "t = s5\<lparr>listening := Some (httpPort cfg), console := c\<rparr>"
    using v l by (auto simp: serve_def logInfo_def modify_def attempt_def andThen_def ret_def throw_def
        split: option.splits)
  then have same: "files t = files s5" "modules t = modules s5" "moduleVersion t = moduleVersion s5"
    "importTable t = importTable s5" "tablePart t = tablePart s5" "subs t = subs s5"
    by (simp_all add: tablePart_def)
  then show "serviceInv cfg t"
    using s5(1) by (simp add: serviceInv_def loaderInv_def consumersInv_def tablePart_def)
  show "upToDate pf cfg t"
    using s5(2) [OF u4] same by (simp add: upToDate_def loaderFresh_def liveOn_def onDisk_def dirEntry_def)
  show "listening t = Some (httpPort cfg)" by (simp add: t)
  have "procPart s5 = procPart s"
    using keepsD [OF keeps_procPart_steps(4) refl e] keepsD [OF keeps_procPart_steps(5) refl n]
      keepsD [OF keeps_procPart_steps(1) refl y] keepsD [OF keeps_procPart_steps(2) refl r]
      keepsD [OF keeps_procPart_steps(3) refl w] by simp
  then show "exitCode t = exitCode s" by (simp add: t procPart_def)
  have live: "liveOn x (hookSubject cfg) = length (hookSubs cfg x)" for x :: "'a proc_state_scheme"
    by (simp add: liveOn_def hookSubs_def)
  have "hookSubs cfg t = hookSubs cfg s5" by (simp add: t hookSubs_def)
  then show "liveOn t (hookSubject cfg) = Suc (liveOn s (hookSubject cfg))"
    unfolding live using s5(3) h4 by simp
qed

text \<open>A boot that fails has not started to listen.\<close>

lemma main_Inl:
  assumes "main pf cfg s = (Inl e, t)"
  shows "procPart t = procPart s"
proof -
  let ?go = "andThen (ensureRuntimeDir pf) (\<lambda>_. andThen (appStateNew pf cfg) (\<lambda>_.
    andThen (syncRepoAndReload pf cfg) (\<lambda>_. andThen (reconcileConsumers pf cfg) (\<lambda>_.
    andThen (watchTSHook pf cfg) (\<lambda>_. attempt (bunServe pf (httpPort cfg)))))))"
  have eq: "main pf cfg = andThen ?go (\<lambda>_. andThen (modify (\<lambda>s. s\<lparr>listening := Some (httpPort cfg)\<rparr>)) (\<lambda>_.
      logInfo ''bun runtime listening''
        [(''project'', project cfg), (''port'', showInt (httpPort cfg))]))"
    unfolding main_def serve_def andThen_assoc ..
  have "?go s = (Inl e, t)"
    by (rule andThen_InlD [OF assms [unfolded eq]]) (simp add: logInfo_def modify_def)
  moreover have "keeps (\<lambda>x. procPart x = procPart s) ?go" by (intro keeps_rules)
  ultimately show ?thesis using keepsD by fastforce
qed

end
