(* ===== verification/Rt_Reach.thy ===== *)
theory Rt_Reach
  imports Main
begin

text \<open>
  Labelled step relations: reachable states and the rule for invariants, forward simulation, and
  executions with the rule for progress under weak fairness. The relations of the process, of
  its tasks and of its event loop share them.
\<close>

inductive reach :: "('s \<Rightarrow> bool) \<Rightarrow> ('s \<Rightarrow> 'e \<Rightarrow> 's \<Rightarrow> bool) \<Rightarrow> 's \<Rightarrow> bool"
  for init :: "'s \<Rightarrow> bool" and step :: "'s \<Rightarrow> 'e \<Rightarrow> 's \<Rightarrow> bool"
where
  reach_init: "init s \<Longrightarrow> reach init step s"
| reach_step: "reach init step s \<Longrightarrow> step s e t \<Longrightarrow> reach init step t"

locale inductive_invariant =
  fixes init :: "'s \<Rightarrow> bool"
    and step :: "'s \<Rightarrow> 'e \<Rightarrow> 's \<Rightarrow> bool"
    and inv :: "'s \<Rightarrow> bool"
  assumes init_inv: "init s \<Longrightarrow> inv s"
    and step_inv: "inv s \<Longrightarrow> step s e t \<Longrightarrow> inv t"
begin

lemma reach_inv: "reach init step s \<Longrightarrow> inv s"
  by (induction rule: reach.induct) (auto intro: init_inv step_inv)

lemma run_inv:
  assumes "inv s" and "reach (\<lambda>x. x = s) step t"
  shows "inv t"
  using assms(2,1) by (induction rule: reach.induct) (auto intro: step_inv)

end

text \<open>
  Forward simulation by an abstraction function: every step of the concrete relation, taken from
  a state with the invariant, is a step with the same label of the abstract one.
\<close>

locale simulation = inductive_invariant init step inv
  for init :: "'s \<Rightarrow> bool" and step :: "'s \<Rightarrow> 'e \<Rightarrow> 's \<Rightarrow> bool" and inv :: "'s \<Rightarrow> bool" +
  fixes absInit :: "'a \<Rightarrow> bool"
    and absStep :: "'a \<Rightarrow> 'e \<Rightarrow> 'a \<Rightarrow> bool"
    and abs :: "'s \<Rightarrow> 'a"
    and cond :: bool
  assumes sim_init: "cond \<Longrightarrow> init s \<Longrightarrow> absInit (abs s)"
    and sim_step: "cond \<Longrightarrow> inv s \<Longrightarrow> step s e t \<Longrightarrow> absStep (abs s) e (abs t)"
begin

lemma sim_reach:
  assumes "reach init step s" and cond
  shows "inv s \<and> reach absInit absStep (abs s)"
  using assms(1)
proof (induction rule: reach.induct)
  case (reach_init s)
  then show ?case using sim_init [OF assms(2)] init_inv by (blast intro: reach.reach_init)
next
  case (reach_step s e t)
  then show ?case using sim_step [OF assms(2)] step_inv by (blast intro: reach.reach_step)
qed

end

text \<open>
  Executions are infinite; \<^const>\<open>None\<close> stands for a moment in which nothing happens. An action that
  from some moment on can always be taken is taken (weak fairness).
\<close>

definition execution :: "('s \<Rightarrow> 'e \<Rightarrow> 's \<Rightarrow> bool) \<Rightarrow> (nat \<Rightarrow> 's) \<Rightarrow> (nat \<Rightarrow> 'e option) \<Rightarrow> bool" where
  "execution step xs es \<longleftrightarrow>
     (\<forall>i. case es i of None \<Rightarrow> xs (Suc i) = xs i | Some e \<Rightarrow> step (xs i) e (xs (Suc i)))"

definition weaklyFair ::
    "('s \<Rightarrow> 'e \<Rightarrow> 's \<Rightarrow> bool) \<Rightarrow> 'e \<Rightarrow> (nat \<Rightarrow> 's) \<Rightarrow> (nat \<Rightarrow> 'e option) \<Rightarrow> bool" where
  "weaklyFair step a xs es \<longleftrightarrow>
     (\<forall>i. (\<forall>j \<ge> i. \<exists>t. step (xs j) a t) \<longrightarrow> (\<exists>j \<ge> i. es j = Some a))"

lemma execution_step:
  "execution step xs es \<Longrightarrow> es n = None \<and> xs (Suc n) = xs n \<or> (\<exists>e. step (xs n) e (xs (Suc n)))"
  by (auto simp: execution_def dest!: spec [of _ n] split: option.splits)

lemma execution_inv:
  assumes "execution step xs es" and "\<And>s e t. P s \<Longrightarrow> step s e t \<Longrightarrow> P t" and "P (xs i)" and "i \<le> j"
  shows "P (xs j)"
  using assms(4,3)
proof (induction rule: dec_induct)
  case (step n)
  have "es n = None \<and> xs (Suc n) = xs n \<or> (\<exists>e. step (xs n) e (xs (Suc n)))"
    by (rule execution_step [OF assms(1)])
  with step.IH step.prems assms(2) show ?case by metis
qed

text \<open>
  The rule for progress: as long as a task is busy, its action can be taken and brings it closer
  to the end, and no other action takes it further away.
\<close>

locale progress =
  fixes step :: "'s \<Rightarrow> 'e \<Rightarrow> 's \<Rightarrow> bool"
    and inv :: "'s \<Rightarrow> bool"
    and busy :: "'s \<Rightarrow> bool"
    and action :: 'e
    and rank :: "'s \<Rightarrow> 'r"
    and order :: "('r \<times> 'r) set"
  assumes order_wf: "wf order"
    and inv_step: "inv s \<Longrightarrow> step s e t \<Longrightarrow> inv t"
    and enabled: "inv s \<Longrightarrow> busy s \<Longrightarrow> \<exists>t. step s action t"
    and closer: "inv s \<Longrightarrow> busy s \<Longrightarrow> step s action t \<Longrightarrow> (rank t, rank s) \<in> order"
    and not_further: "inv s \<Longrightarrow> busy s \<Longrightarrow> step s e t \<Longrightarrow> e \<noteq> action \<Longrightarrow>
        rank t = rank s \<or> (rank t, rank s) \<in> order"
begin

lemma ends:
  assumes run: "execution step xs es" and fair: "weaklyFair step action xs es" and start: "inv (xs i)"
  shows "\<exists>j \<ge> i. \<not> busy (xs j)"
  using start
proof (induction "rank (xs i)" arbitrary: i rule: wf_induct_rule [OF order_wf])
  case (1 i)
  show ?case
  proof (rule ccontr)
    assume no: "\<not> (\<exists>j \<ge> i. \<not> busy (xs j))"
    have inv: "inv (xs j)" if "i \<le> j" for j
      by (rule execution_inv [where P = inv, OF run inv_step 1(2) that])
    have "\<forall>j \<ge> i. \<exists>t. step (xs j) action t" using no inv enabled by blast
    then obtain j where j: "i \<le> j" "es j = Some action" using fair by (auto simp: weaklyFair_def)
    have down: "rank (xs m) = rank (xs i) \<or> (\<exists>l \<ge> i. (rank (xs l), rank (xs i)) \<in> order)" if "i \<le> m" for m
      using that
    proof (induction rule: dec_induct)
      case (step m)
      have "es m = None \<and> xs (Suc m) = xs m \<or> (\<exists>e. step (xs m) e (xs (Suc m)))"
        by (rule execution_step [OF run])
      then have "rank (xs (Suc m)) = rank (xs m) \<or> (rank (xs (Suc m)), rank (xs m)) \<in> order"
        using inv [OF step(1)] no step(1) closer not_further by metis
      with step show ?case by (metis le_SucI)
    qed simp
    have "step (xs j) action (xs (Suc j))" using run j(2) by (auto simp: execution_def dest!: spec [of _ j])
    then have "(rank (xs (Suc j)), rank (xs j)) \<in> order" using closer inv [OF j(1)] no j(1) by blast
    with down [OF j(1)] j(1) obtain l where "i \<le> l" "(rank (xs l), rank (xs i)) \<in> order" by (metis le_SucI)
    with 1(1) [OF this(2) inv [OF this(1)]] no show False by (meson order_trans)
  qed
qed

end

text \<open>A scheduler that picks one action at a time gives an execution.\<close>

lemma scheduled:
  assumes "\<And>s e. pick s = Some e \<Longrightarrow> step s e (next_state s)" and "\<And>s. pick s = None \<Longrightarrow> next_state s = s"
  shows "execution step (\<lambda>i. (next_state ^^ i) x) (\<lambda>i. pick ((next_state ^^ i) x))"
  using assms by (auto simp: execution_def split: option.split)

end
