(* ===== verification/Rt_Process.thy ===== *)
theory Rt_Process
  imports Rt_Main Rt_Reach
begin

text \<open>
  The process after its boot, as a step relation: messages for functions, hook messages and
  HTTP requests (labelled with the answer they get) arrive in any order, and each is handled to its end before the next. The
  second part of a state records whether the last refresh succeeded, which an operator reads
  from the log. A message may arrive for every running consumer (also for one whose earlier
  invocation never ends: the relation allows more than the code does).
\<close>

section \<open>Steps\<close>

datatype event =
    FunctionMessage string "string \<times> bytes"
  | HookMessage "string \<times> bytes"
  | HttpRequest http_request "http_response settled"

definition refreshLogged :: "settings \<Rightarrow> 'a os_scheme \<Rightarrow> bool" where
  "refreshLogged cfg s \<longleftrightarrow>
     last (console s) = Info ''runtime code refreshed via hook'' [(''project'', project cfg)]"

inductive processStep ::
    "platform \<Rightarrow> settings \<Rightarrow> proc_state \<times> bool \<Rightarrow> event \<Rightarrow> proc_state \<times> bool \<Rightarrow> bool"
  for pf :: platform and cfg :: settings
where
  on_message: "mapGet (consumers s) name = Some i \<Longrightarrow> handleMessage pf cfg name msg s = (go, t) \<Longrightarrow>
     processStep pf cfg (s, ok) (FunctionMessage name msg) (t, ok)"
| on_hook: "handleHook pf cfg msg s = (r, t) \<Longrightarrow>
     processStep pf cfg (s, ok) (HookMessage msg) (t, refreshLogged cfg t)"
| on_request: "handleSyncRequest pf cfg req s = (r, t) \<Longrightarrow>
     processStep pf cfg (s, ok) (HttpRequest req r) (t, ok)"

inductive_cases message_stepE: "processStep pf cfg x (FunctionMessage name msg) y"
inductive_cases hook_stepE: "processStep pf cfg x (HookMessage msg) y"
inductive_simps request_step_simps: "processStep pf cfg x (HttpRequest req r) y"

definition booted :: "platform \<Rightarrow> settings \<Rightarrow> fs \<Rightarrow> proc_state \<times> bool \<Rightarrow> bool" where
  "booted pf cfg fs x \<longleftrightarrow>
     main pf cfg (initialState fs) = (Inr (), fst x) \<and> snd x"

section \<open>Invariants\<close>

text \<open>What handling a message does to the state, whatever the invocation does.\<close>

lemma handleMessage_parts:
  fixes s :: "'a rt_state_scheme"
  assumes run: "handleMessage pf cfg name msg s = (go, t)"
  obtains g u bs c where "invokeModule pf name (requestID (fst msg)) (snd msg) None s = (g, u)"
    and "t = u\<lparr>published := published u @ map (Pair (resSubject cfg name (requestID (fst msg)))) bs,
           console := c\<rparr>"
proof -
  obtain x d where msg: "msg = (x, d)" by (cases msg)
  let ?x = "resSubject cfg name (requestID x)"
  obtain g u where inv: "invokeModule pf name (requestID x) d None s = (g, u)"
    by (cases "invokeModule pf name (requestID x) d None s")
  obtain o1 v where pub: "publishAll pf ?x g u = (o1, v)" by (cases "publishAll pf ?x g u")
  obtain bs where v: "v = u\<lparr>published := published u @ map (Pair ?x) bs\<rparr>"
    using publishAll_state [of pf ?x g u] pub by simp
  obtain c where "t = v\<lparr>console := c\<rparr>"
  proof (cases o1)
    case (Threw e)
    with run msg inv pub show ?thesis
      by (auto simp: handleMessage_def Let_def logError_def modify_def intro: that)
  qed (use run msg inv pub in \<open>auto simp: handleMessage_def Let_def intro: that [of "console v"]\<close>)
  with that inv msg v show ?thesis by simp
qed

lemma handleMessage_frame:
  fixes s :: "'a rt_state_scheme"
  assumes run: "handleMessage pf cfg name msg s = (go, t)"
  shows "files t = files s" "tablePart t = tablePart s"
    "loaderInv s \<Longrightarrow> loaderInv t" "loaderFresh pf s \<Longrightarrow> loaderFresh pf t"
    "\<exists>bs. published t = published s @ map (Pair (resSubject cfg name (requestID (fst msg)))) bs"
proof -
  obtain g u bs c where i: "invokeModule pf name (requestID (fst msg)) (snd msg) None s = (g, u)"
    and t: "t = u\<lparr>published := published u @ map (Pair (resSubject cfg name (requestID (fst msg)))) bs,
           console := c\<rparr>"
    by (rule handleMessage_parts [OF run])
  show "files t = files s" using t invokeModule_frame(1) [OF i] by simp
  show "tablePart t = tablePart s" using t invoke_tables(1) [OF i] by (simp add: tablePart_def)
  show "loaderInv t" if "loaderInv s"
    using invoke_inv [OF that, of pf name "requestID (fst msg)" "snd msg" None] i t
    by (simp add: loaderInv_def)
  show "loaderFresh pf t" if "loaderFresh pf s"
    using invoke_fresh(2) [OF that, of name "requestID (fst msg)" "snd msg" None] i t
    by (simp add: loaderFresh_def)
  show "\<exists>bs. published t = published s @ map (Pair (resSubject cfg name (requestID (fst msg)))) bs"
    using t invoke_tables(2) [OF i] by auto
qed

text \<open>What a step that only serves does to the properties of the state.\<close>

lemma served_inv:
  assumes "files t = files s" and "tablePart t = tablePart s"
    and "loaderInv s \<Longrightarrow> loaderInv t" and "loaderFresh pf s \<Longrightarrow> loaderFresh pf t"
  shows "serviceInv cfg s \<Longrightarrow> serviceInv cfg t" "upToDate pf cfg s \<Longrightarrow> upToDate pf cfg t"
    "liveOn t x = liveOn s x"
  using assms
  by (simp_all add: serviceInv_def upToDate_def consumersInv_def liveOn_def onDisk_def dirEntry_def
      tablePart_def)

text \<open>A hook message whose success is logged has refreshed and reconciled.\<close>

lemma handleHook_logged:
  fixes s :: "'a rt_state_scheme"
  assumes inv: "serviceInv cfg s" and run: "handleHook pf cfg msg s = (r, t)" and log: "refreshLogged cfg t"
  obtains s0 s1 s2 :: "'a rt_state_scheme" where "serviceInv cfg s0" and "syncRepoAndReload pf cfg s0 = (Inr (), s1)"
    and "reconcileConsumers pf cfg s1 = (Inr (), s2)" and "files t = files s2"
proof -
  define s0 where "s0 = snd (logInfo ''ts hook received'' [(''project'', project cfg),
    (''subject'', fst msg), (''payload'', textDecode (snd msg))] s)"
  have l: "logInfo ''ts hook received'' [(''project'', project cfg),
      (''subject'', fst msg), (''payload'', textDecode (snd msg))] s = (Inr (), s0)"
    and s0: "serviceInv cfg s0"
    using inv by (simp_all add: s0_def logInfo_def modify_def serviceInv_log)
  obtain x s1 where sy: "syncRepoAndReload pf cfg s0 = (x, s1)" by (cases "syncRepoAndReload pf cfg s0")
  obtain y s2 where rc: "reconcileConsumers pf cfg s1 = (y, s2)" by (cases "reconcileConsumers pf cfg s1")
  have "\<exists>a. x = Inr a"
    using run log l sy
    by (cases x) (auto simp: handleHook_def tryCatch_def andThen_Inr andThen_Inl logError_def modify_def
        refreshLogged_def)
  moreover from this have "\<exists>a. y = Inr a"
    using run log l sy rc
    by (cases y) (auto simp: handleHook_def tryCatch_def andThen_Inr andThen_Inl logError_def modify_def
        refreshLogged_def)
  moreover from calculation have "files t = files s2"
    using run l sy rc by (auto simp: handleHook_def tryCatch_def andThen_Inr logInfo_def modify_def)
  ultimately show ?thesis using that [OF s0] sy rc by auto
qed

definition processInv :: "platform \<Rightarrow> settings \<Rightarrow> proc_state \<times> bool \<Rightarrow> bool" where
  "processInv pf cfg x \<longleftrightarrow>
     serviceInv cfg (fst x) \<and> liveOn (fst x) (hookSubject cfg) = 1
     \<and> (snd x \<longrightarrow> upToDate pf cfg (fst x))"

lemma liveOn_hookSubs: "liveOn s (hookSubject cfg) = length (hookSubs cfg s)"
  by (simp add: liveOn_def hookSubs_def)

text \<open>No refresh touches the hook's own subscription, nor publishes anything.\<close>

definition hookPart where
  "hookPart cfg s = (hookSubs cfg s, published s)"

lemma keeps_hookPart:
  assumes "commandsTidy pf"
  shows "keeps (\<lambda>s :: 'a rt_state_scheme. serviceInv cfg s \<and> hookPart cfg s = h) (handleHook pf cfg msg)"
proof -
  let ?P = "\<lambda>s :: 'a rt_state_scheme. serviceInv cfg s \<and> hookPart cfg s = h"
  have log: "keeps ?P (logInfo m a)" "keeps ?P (logError m a)" for m a
    by (auto simp: keeps_def logInfo_def logError_def modify_def serviceInv_log hookPart_def hookSubs_def)
  have "keeps (\<lambda>s :: 'a rt_state_scheme. hookPart cfg s = h) (syncRepoAndReload pf cfg)"
    by (rule keeps_refresh(2))
      (simp_all add: osBlind_def keeps_def hookPart_def hookSubs_def clearModuleCache_def modify_def)
  then have sync: "keeps ?P (syncRepoAndReload pf cfg)" by (intro keeps_conj refresh_inv assms)
  have rec: "keeps ?P (reconcileConsumers pf cfg)"
    unfolding keeps_def
  proof (intro allI impI)
    fix s :: "'a rt_state_scheme"
    assume s: "serviceInv cfg s \<and> hookPart cfg s = h"
    obtain x t where r: "reconcileConsumers pf cfg s = (x, t)" by (cases "reconcileConsumers pf cfg s")
    have "fsInv (files s)" "consumersInv cfg s" using s by (simp_all add: serviceInv_def)
    from reconcile_keeps(2) [OF this r] restPartD(5) [OF reconcile_keeps(3) [OF this r]]
      reconcile_inv [of cfg s pf x t] s r
    show "serviceInv cfg (snd (reconcileConsumers pf cfg s))
        \<and> hookPart cfg (snd (reconcileConsumers pf cfg s)) = h" by (simp add: hookPart_def)
  qed
  show ?thesis unfolding handleHook_def by (intro keeps_rules log sync rec)
qed

lemma processInv_step:
  assumes inst: "installed pf" and tidy: "commandsTidy pf" and inv: "processInv pf cfg x"
    and step: "processStep pf cfg x e y"
  shows "processInv pf cfg y"
  using step
proof cases
  case (on_message s name i msg go t ok)
  from served_inv [OF handleMessage_frame(1-4) [OF on_message(5)]] inv on_message(1,3)
  show ?thesis by (simp add: processInv_def)
next
  case (on_request req s r t ok)
  from served_inv [OF handleSyncRequest_frame(1,2,4,5) [OF on_request(4)]] inv on_request(1,3)
  show ?thesis by (simp add: processInv_def)
next
  case (on_hook msg s r t ok)
  have s: "serviceInv cfg s" "length (hookSubs cfg s) = 1"
    using inv on_hook(1) by (simp_all add: processInv_def liveOn_hookSubs)
  from keepsD [OF keeps_hookPart [OF tidy] _ on_hook(4)] s(1)
  have "serviceInv cfg t" "hookPart cfg t = hookPart cfg s" by blast+
  then have t: "serviceInv cfg t" "hookSubs cfg t = hookSubs cfg s" by (simp_all add: hookPart_def)
  have "upToDate pf cfg t" if "refreshLogged cfg t"
    using handleHook_cases [OF inst tidy s(1), of msg] on_hook(4) that by (auto simp: refreshLogged_def)
  with t s(2) on_hook(3) show ?thesis by (simp add: processInv_def liveOn_hookSubs)
qed

lemma booted_inv:
  assumes "installed pf" and "commandsTidy pf" and "fsInv fs" and "booted pf cfg fs x"
  shows "processInv pf cfg x"
proof -
  have ok: "main pf cfg (initialState fs) = (Inr (), fst x)" using assms(4) by (simp add: booted_def)
  note m = main_okE [OF assms(1,2) initial_serviceInv [OF assms(3)] ok]
  have "liveOn (initialState fs) (hookSubject cfg) = 0" by (simp add: initialState_def liveOn_def)
  with m show ?thesis by (simp add: processInv_def)
qed

interpretation process: inductive_invariant "booted pf cfg fs" "processStep pf cfg"
    "\<lambda>x. installed pf \<and> commandsTidy pf \<and> fsInv fs \<longrightarrow> processInv pf cfg x"
  for pf cfg fs
  by unfold_locales (auto intro: booted_inv processInv_step)

end
