(* ===== verification/Rt_Hook.thy ===== *)
theory Rt_Hook
  imports Rt_Steps Rt_Process
begin

text \<open>
  The hook's loop cut at its \<^verbatim>\<open>await\<close>s: a message is taken and logged, the refresh runs step
  by step, the reconciliation runs step by step, and success or failure is logged. Without
  interruption these steps are \<^verbatim>\<open>handleHook\<close>; with interruptions they still come to an end.
\<close>

section \<open>A reconciliation in steps\<close>

datatype reconcile_pc =
    FindingRoot | ListingRoot | Starting "string list" | Reconciled | Broken js_error

text \<open>
  What follows the listing without an \<^verbatim>\<open>await\<close>: the set of names, and the first loop.
\<close>

definition dropUnwanted ::
    "string list \<Rightarrow> 'a rt_state_scheme \<Rightarrow> reconcile_pc \<times> 'a rt_state_scheme" where
  "dropUnwanted names s =
     (let desired = newSet names in
      case dropConsumers desired (consumers s) s of
        (Inl e, t) \<Rightarrow> (Broken e, t)
      | (Inr _, t) \<Rightarrow> (Starting desired, t))"

text \<open>The names of the function files among the entries of a directory, as \<^verbatim>\<open>listFunctions\<close> gives them.\<close>

definition functionNames :: "string list \<Rightarrow> string list" where
  "functionNames entries = sort (newSet (map (\<lambda>e. pathBasename e ''.ts'') (filter isFunctionFile entries)))"

fun reconcileStep ::
    "platform \<Rightarrow> settings \<Rightarrow> reconcile_pc \<Rightarrow> 'a rt_state_scheme \<Rightarrow> reconcile_pc \<times> 'a rt_state_scheme" where
  "reconcileStep pf cfg FindingRoot s =
     (if fsExists (files s) (runtimeFunctionsPath pf) then (ListingRoot, s) else dropUnwanted [] s)"
| "reconcileStep pf cfg ListingRoot s =
     (case fsReaddir (files s) (runtimeFunctionsPath pf) of
        Inl e \<Rightarrow> (Broken e, s)
      | Inr entries \<Rightarrow> dropUnwanted (functionNames entries) s)"
| "reconcileStep pf cfg (Starting []) s = (Reconciled, s)"
| "reconcileStep pf cfg (Starting (name # names)) s =
     (if mapHas (consumers s) name then (Starting names, s)
      else (case consumeFunction pf cfg name s of
              (Inl e, t) \<Rightarrow> (Broken e, t)
            | (Inr _, t) \<Rightarrow> (Starting names, t)))"
| "reconcileStep pf cfg Reconciled s = (Reconciled, s)"
| "reconcileStep pf cfg (Broken e) s = (Broken e, s)"

fun reconcileRank :: "reconcile_pc \<Rightarrow> nat \<times> nat" where
  "reconcileRank FindingRoot = (3, 0)"
| "reconcileRank ListingRoot = (2, 0)"
| "reconcileRank (Starting names) = (1, length names)"
| "reconcileRank _ = (0, 0)"

fun reconcileDone :: "reconcile_pc \<Rightarrow> bool" where
  "reconcileDone Reconciled = True"
| "reconcileDone (Broken e) = True"
| "reconcileDone _ = False"

lemma dropUnwanted_rank: "dropUnwanted names s = (pc, t) \<Longrightarrow> fst (reconcileRank pc) \<le> 1"
  by (auto simp: dropUnwanted_def Let_def split: prod.splits sum.splits)

lemma reconcileStep_rank:
  assumes "\<not> reconcileDone pc" and "reconcileStep pf cfg pc s = (pc', t)"
  shows "(reconcileRank pc', reconcileRank pc) \<in> less_than <*lex*> less_than"
  using assms
proof (cases "(pf, cfg, pc, s)" rule: reconcileStep.cases)
  case 1
  with assms show ?thesis using dropUnwanted_rank [of "[]" s pc' t] by (cases "reconcileRank pc'") (auto split: if_splits)
next
  case 2
  with assms show ?thesis
    using dropUnwanted_rank [of _ s pc' t] by (cases "reconcileRank pc'") (fastforce split: sum.splits)
qed (use assms in \<open>auto split: if_splits prod.splits sum.splits\<close>)

section \<open>The hook's loop in steps\<close>

text \<open>\<open>Listening\<close> carries whether the last refresh was logged as successful.\<close>

datatype hook_pc = Listening bool | Syncing refresh_pc | Reconciling reconcile_pc

definition hookSucceeded :: "settings \<Rightarrow> 'a os_scheme \<Rightarrow> hook_pc \<times> 'a os_scheme" where
  "hookSucceeded cfg s =
     (Listening True, snd (logInfo ''runtime code refreshed via hook'' [(''project'', project cfg)] s))"

definition hookFailed :: "settings \<Rightarrow> js_error \<Rightarrow> 'a os_scheme \<Rightarrow> hook_pc \<times> 'a os_scheme" where
  "hookFailed cfg e s =
     (Listening False, snd (logError ''failed to refresh runtime code''
        [(''project'', project cfg), (''error'', err_string e)] s))"

text \<open>Taking a message, up to the first \<^verbatim>\<open>await\<close> of the refresh.\<close>

definition takeHook ::
    "settings \<Rightarrow> string \<times> bytes \<Rightarrow> 'a fn_state_scheme \<Rightarrow> hook_pc \<times> 'a fn_state_scheme" where
  "takeHook cfg msg s =
     (Syncing Checking, refreshBegin cfg (snd (logInfo ''ts hook received''
        [(''project'', project cfg), (''subject'', fst msg), (''payload'', textDecode (snd msg))] s)))"

fun hookStep ::
    "platform \<Rightarrow> settings \<Rightarrow> hook_pc \<Rightarrow> 'a rt_state_scheme \<Rightarrow> hook_pc \<times> 'a rt_state_scheme" where
  "hookStep pf cfg (Listening ok) s = (Listening ok, s)"
| "hookStep pf cfg (Syncing pc) s =
     (case refreshStep pf cfg pc s of
        (Completed, t) \<Rightarrow> (Reconciling FindingRoot, t)
      | (Aborted e, t) \<Rightarrow> hookFailed cfg e t
      | (pc', t) \<Rightarrow> (Syncing pc', t))"
| "hookStep pf cfg (Reconciling pc) s =
     (case reconcileStep pf cfg pc s of
        (Reconciled, t) \<Rightarrow> hookSucceeded cfg t
      | (Broken e, t) \<Rightarrow> hookFailed cfg e t
      | (pc', t) \<Rightarrow> (Reconciling pc', t))"

fun hookRank :: "hook_pc \<Rightarrow> nat \<times> nat \<times> nat" where
  "hookRank (Listening ok) = (0, 0, 0)"
| "hookRank (Syncing pc) = (2, refreshRank pc)"
| "hookRank (Reconciling pc) = (1, reconcileRank pc)"

definition hookOrder :: "((nat \<times> nat \<times> nat) \<times> (nat \<times> nat \<times> nat)) set" where
  "hookOrder = less_than <*lex*> less_than <*lex*> less_than"

lemma wf_hookOrder: "wf hookOrder"
  by (auto simp: hookOrder_def)

fun hookIdle :: "hook_pc \<Rightarrow> bool" where
  "hookIdle (Listening ok) = True"
| "hookIdle _ = False"

lemma hookStep_sync_cases:
  assumes "refreshStep pf cfg pc s = (pc', t)"
  shows "hookStep pf cfg (Syncing pc) s =
    (case pc' of Completed \<Rightarrow> (Reconciling FindingRoot, t) | Aborted e \<Rightarrow> hookFailed cfg e t
     | _ \<Rightarrow> (Syncing pc', t))"
  by (simp add: assms split: refresh_pc.split)

lemma hookStep_reconcile_cases:
  assumes "reconcileStep pf cfg pc s = (pc', t)"
  shows "hookStep pf cfg (Reconciling pc) s =
    (case pc' of Reconciled \<Rightarrow> hookSucceeded cfg t | Broken e \<Rightarrow> hookFailed cfg e t
     | _ \<Rightarrow> (Reconciling pc', t))"
  by (simp add: assms split: reconcile_pc.split)

lemma hookStep_rank:
  assumes "\<not> hookIdle h" and "hookStep pf cfg h s = (h', t)"
  shows "(hookRank h', hookRank h) \<in> hookOrder"
proof (cases h)
  case (Syncing pc)
  obtain pc' u where st: "refreshStep pf cfg pc s = (pc', u)" by (cases "refreshStep pf cfg pc s")
  show ?thesis
  proof (cases "refreshDone pc")
    case True
    with st have "pc' = pc" by (cases pc) simp_all
    with True Syncing assms(2) hookStep_sync_cases [OF st] show ?thesis
      by (cases pc) (auto simp: hookFailed_def hookOrder_def)
  next
    case False
    from refreshStep_rank [OF False st] Syncing assms(2) hookStep_sync_cases [OF st] show ?thesis
      by (cases pc') (auto simp: hookFailed_def hookOrder_def)
  qed
next
  case (Reconciling pc)
  obtain pc' u where st: "reconcileStep pf cfg pc s = (pc', u)" by (cases "reconcileStep pf cfg pc s")
  show ?thesis
  proof (cases "reconcileDone pc")
    case True
    with st have "pc' = pc" by (cases pc) simp_all
    with True Reconciling assms(2) hookStep_reconcile_cases [OF st] show ?thesis
      by (cases pc) (auto simp: hookFailed_def hookSucceeded_def hookOrder_def)
  next
    case False
    from reconcileStep_rank [OF False st] Reconciling assms(2) hookStep_reconcile_cases [OF st] show ?thesis
      by (cases pc') (auto simp: hookFailed_def hookSucceeded_def hookOrder_def)
  qed
qed (use assms in simp)

function hookRun ::
    "platform \<Rightarrow> settings \<Rightarrow> hook_pc \<Rightarrow> 'a rt_state_scheme \<Rightarrow> hook_pc \<times> 'a rt_state_scheme" where
  "hookRun pf cfg h s =
     (if hookIdle h then (h, s)
      else (case hookStep pf cfg h s of (h', t) \<Rightarrow> hookRun pf cfg h' t))"
  by auto

termination hookRun
proof (relation "inv_image hookOrder (\<lambda>(pf, cfg, h, s). hookRank h)", goal_cases)
  case 1
  show ?case using wf_hookOrder by simp
next
  case 2
  then show ?case using hookStep_rank [OF 2(1) surjective_pairing] by (simp add: case_prod_unfold)
qed

declare hookRun.simps [simp del]

lemma hookRun_idle [simp]: "hookRun pf cfg (Listening ok) s = (Listening ok, s)"
  by (simp add: hookRun.simps)

lemma hookRun_step:
  "\<not> hookIdle h \<Longrightarrow> hookRun pf cfg h s = (case hookStep pf cfg h s of (h', t) \<Rightarrow> hookRun pf cfg h' t)"
  by (simp add: hookRun.simps [of pf cfg h])

section \<open>Without interruption: the handler itself\<close>

text \<open>What the listing finds, in the two cases in which it does not fail.\<close>

lemma listFunctions_listed:
  "\<not> fsExists (files s) (runtimeFunctionsPath pf) \<Longrightarrow> listFunctions pf s = (Inr [], s)"
  "fsExists (files s) (runtimeFunctionsPath pf) \<Longrightarrow> fsReaddir (files s) (runtimeFunctionsPath pf) = Inr entries \<Longrightarrow>
     listFunctions pf s = (Inr (functionNames entries), s)"
  "fsExists (files s) (runtimeFunctionsPath pf) \<Longrightarrow> fsReaddir (files s) (runtimeFunctionsPath pf) = Inl e \<Longrightarrow>
     listFunctions pf s = (Inl e, s)"
  by (simp_all add: listFunctions_def Let_def andThen_def list_loop newSet_def ret_def functionNames_def)

text \<open>What the loop makes of the end of the reconciliation, and of the end of the refresh.\<close>

definition hookEnd :: "settings \<Rightarrow> (js_error + unit) \<times> 'a rt_state_scheme \<Rightarrow> hook_pc \<times> 'a rt_state_scheme" where
  "hookEnd cfg x = (case x of (Inl e, t) \<Rightarrow> hookFailed cfg e t | (Inr _, t) \<Rightarrow> hookSucceeded cfg t)"

lemma hookRun_ended [simp]:
  "hookRun pf cfg (fst (hookFailed cfg e s)) t = (Listening False, t)"
  "hookRun pf cfg (fst (hookSucceeded cfg s)) t = (Listening True, t)"
  by (simp_all add: hookFailed_def hookSucceeded_def)

lemma hookRun_starting:
  fixes s :: "'a rt_state_scheme"
  shows "hookRun pf cfg (Reconciling (Starting names)) s = hookEnd cfg (startConsumers pf cfg names s)"
proof (induction names arbitrary: s)
  case Nil
  show ?case by (simp add: hookRun_step startConsumers_def ret_def hookEnd_def hookSucceeded_def)
next
  case (Cons n ns)
  show ?case
  proof (cases "mapHas (consumers s) n")
    case True
    with Cons show ?thesis by (simp add: hookRun_step startConsumers_def andThen_def gets_def ret_def)
  next
    case False
    obtain r t where c: "consumeFunction pf cfg n s = (r, t)" by (cases "consumeFunction pf cfg n s")
    with False Cons show ?thesis
      by (cases r) (simp_all add: hookRun_step startConsumers_def andThen_def gets_def hookEnd_def hookFailed_def)
  qed
qed

lemma hookRun_dropping:
  fixes s :: "'a rt_state_scheme"
  assumes "reconcileStep pf cfg pc s = dropUnwanted names s" and "\<not> reconcileDone pc"
  shows "hookRun pf cfg (Reconciling pc) s =
    hookEnd cfg (andThen (gets consumers) (\<lambda>entries. andThen (dropConsumers (newSet names) entries)
      (\<lambda>_. startConsumers pf cfg (newSet names))) s)"
proof -
  obtain r t where d: "dropConsumers (newSet names) (consumers s) s = (r, t)"
    by (cases "dropConsumers (newSet names) (consumers s) s")
  then show ?thesis
    using hookRun_step [of "Reconciling pc" pf cfg s] assms(1)
    by (cases r) (simp_all add: dropUnwanted_def Let_def hookRun_starting gets_def andThen_def hookEnd_def hookFailed_def)
qed

lemma hookRun_reconciling:
  fixes s :: "'a rt_state_scheme"
  shows "hookRun pf cfg (Reconciling FindingRoot) s = hookEnd cfg (reconcileConsumers pf cfg s)"
proof -
  let ?rt = "runtimeFunctionsPath pf"
  show ?thesis
  proof (cases "fsExists (files s) ?rt")
    case False
    from listFunctions_listed(1) [OF this] False show ?thesis
      by (simp add: hookRun_dropping reconcileConsumers_def Let_def andThen_Inr)
  next
    case True
    then have "hookRun pf cfg (Reconciling FindingRoot) s = hookRun pf cfg (Reconciling ListingRoot) s"
      by (simp add: hookRun_step [of "Reconciling FindingRoot"])
    moreover have "hookRun pf cfg (Reconciling ListingRoot) s = hookEnd cfg (reconcileConsumers pf cfg s)"
    proof (cases "fsReaddir (files s) ?rt")
      case (Inl e)
      from listFunctions_listed(3) [OF True Inl] Inl show ?thesis
        by (simp add: hookRun_step [of "Reconciling ListingRoot"] hookEnd_def hookFailed_def
            reconcileConsumers_def andThen_Inl)
    next
      case (Inr entries)
      from listFunctions_listed(2) [OF True Inr] Inr show ?thesis
        by (simp add: hookRun_dropping [of pf cfg _ s "functionNames entries"] reconcileConsumers_def Let_def andThen_Inr)
    qed
    ultimately show ?thesis by simp
  qed
qed

text \<open>The refresh inside the hook's loop runs as it does alone, then reconciles or gives up.\<close>

lemma hookRun_syncing:
  fixes s :: "'a rt_state_scheme"
  assumes "\<not> refreshDone pc"
  shows "hookRun pf cfg (Syncing pc) s =
    (case refreshRun pf cfg pc s of
       (Aborted e, t) \<Rightarrow> hookFailed cfg e t
     | (_, t) \<Rightarrow> hookEnd cfg (reconcileConsumers pf cfg t))"
  using assms
proof (induction pf cfg pc s rule: refreshRun.induct)
  case (1 pf cfg pc s)
  obtain pc' t where st: "refreshStep pf cfg pc s = (pc', t)" by (cases "refreshStep pf cfg pc s")
  have run: "refreshRun pf cfg pc s = refreshRun pf cfg pc' t" by (simp add: run_step [OF 1(2)] st)
  have hook: "hookRun pf cfg (Syncing pc) s =
      (case hookStep pf cfg (Syncing pc) s of (h, u) \<Rightarrow> hookRun pf cfg h u)"
    by (simp add: hookRun_step)
  show ?case
  proof (cases "refreshDone pc'")
    case True
    then show ?thesis
      unfolding run hook hookStep_sync_cases [OF st]
      by (cases pc') (simp_all add: hookRun_reconciling hookFailed_def)
  next
    case False
    then have "hookStep pf cfg (Syncing pc) s = (Syncing pc', t)"
      unfolding hookStep_sync_cases [OF st] by (cases pc') simp_all
    with 1(1) [OF 1(2) st [symmetric] False] show ?thesis unfolding run hook by simp
  qed
qed

text \<open>
  C12. The loop of the hook cut at its \<^verbatim>\<open>await\<close>s: however its steps are interrupted, the handling
  of a message ends, and when nothing happens in between, it does what the handler does at once,
  and the flag it ends with says whether refresh and reconciliation both succeeded.
\<close>

theorem hook_steps_are_the_handler:
  "(\<nexists>hs. \<forall>i. \<not> hookIdle (hs i)
      \<and> (\<exists>s t :: 'a rt_state_scheme. hookStep pf cfg (hs i) s = (hs (Suc i), t)))
    \<and> (case takeHook cfg msg s of (h, u) \<Rightarrow> hookRun pf cfg h u) =
       (Listening (refreshLogged cfg (snd (handleHook pf cfg msg s))), snd (handleHook pf cfg msg (s :: 'a rt_state_scheme)))"
proof
  have "wf (inv_image hookOrder hookRank)" using wf_hookOrder by simp
  then have "\<nexists>hs. \<forall>i. (hs (Suc i), hs i) \<in> inv_image hookOrder hookRank"
    by (simp add: wf_iff_no_infinite_down_chain)
  then show "\<nexists>hs. \<forall>i. \<not> hookIdle (hs i)
      \<and> (\<exists>s t :: 'a rt_state_scheme. hookStep pf cfg (hs i) s = (hs (Suc i), t))"
    using hookStep_rank by fastforce
next
  let ?s = "snd (logInfo ''ts hook received'' [(''project'', project cfg), (''subject'', fst msg),
    (''payload'', textDecode (snd msg))] s)"
  obtain r t where sy: "syncRepoAndReload pf cfg ?s = (r, t)" by (cases "syncRepoAndReload pf cfg ?s")
  obtain q u where rc: "reconcileConsumers pf cfg t = (q, u)" by (cases "reconcileConsumers pf cfg t")
  have run: "(case takeHook cfg msg s of (h, u) \<Rightarrow> hookRun pf cfg h u) =
      (case r of Inl e \<Rightarrow> hookFailed cfg e t | Inr _ \<Rightarrow> hookEnd cfg (q, u))"
    using sy rc by (simp add: takeHook_def hookRun_syncing refreshRun_atomic split: sum.split)
  show "(case takeHook cfg msg s of (h, u) \<Rightarrow> hookRun pf cfg h u) =
      (Listening (refreshLogged cfg (snd (handleHook pf cfg msg s))), snd (handleHook pf cfg msg s))"
    unfolding run using sy rc
    by (cases r; cases q)
      (simp_all add: handleHook_def tryCatch_def andThen_def logInfo_def logError_def modify_def
        hookFailed_def hookSucceeded_def hookEnd_def refreshLogged_def)
qed

end
