(* ===== verification/Rt_Interleave.thy ===== *)
theory Rt_Interleave
  imports Rt_Steps Rt_Service Rt_Reach
begin

text \<open>
  Any number of loads interleaved with refreshes, one at a time (the hook's loop awaits each
  refresh, and the boot is over before the hook is watched). Between any two \<^verbatim>\<open>await\<close>s any task
  may run. A state holds the runtime's state, the refresh and whether the last one
  succeeded, and the loads with their program points.
\<close>

section \<open>The tasks of the process\<close>

datatype refresh_task = Idle bool | Refreshing refresh_pc

type_synonym 'a tasks = "'a fn_state_scheme \<times> refresh_task \<times> (string \<times> load_pc) list"

datatype task_event = BeginRefresh | StepRefresh | StartLoad string | StepLoad nat

fun afterStep :: "refresh_pc \<Rightarrow> refresh_task" where
  "afterStep Completed = Idle True"
| "afterStep (Aborted e) = Idle False"
| "afterStep pc = Refreshing pc"

text \<open>A load between making its URL and storing its module.\<close>

fun inFlight :: "load_pc \<Rightarrow> bool" where
  "inFlight (Importing url) = True"
| "inFlight (Storing m) = True"
| "inFlight _ = False"

fun isClearing :: "refresh_pc \<Rightarrow> bool" where
  "isClearing (Clearing n) = True"
| "isClearing _ = False"

text \<open>With \<open>quiet\<close>, only the runs in which no load is in flight at the moment the cache is cleared.\<close>

inductive taskStep ::
    "platform \<Rightarrow> settings \<Rightarrow> bool \<Rightarrow> 'a tasks \<Rightarrow> task_event \<Rightarrow> 'a tasks \<Rightarrow> bool"
  for pf :: platform and cfg :: settings and quiet :: bool
where
  begin_refresh: "taskStep pf cfg quiet (s, Idle ok, ls) BeginRefresh
     (refreshBegin cfg s, Refreshing Checking, ls)"
| step_refresh: "\<not> refreshDone pc \<Longrightarrow> refreshStep pf cfg pc s = (pc', t) \<Longrightarrow>
     (quiet \<Longrightarrow> isClearing pc \<Longrightarrow> \<forall>(n, q) \<in> set ls. \<not> inFlight q) \<Longrightarrow>
     taskStep pf cfg quiet (s, Refreshing pc, ls) StepRefresh (t, afterStep pc', ls)"
| start_load: "taskStep pf cfg quiet (s, r, ls) (StartLoad name) (s, r, ls @ [(name, Lookup)])"
| step_load: "i < length ls \<Longrightarrow> ls ! i = (name, pc) \<Longrightarrow> loadStep pf name pc s = (pc', t) \<Longrightarrow>
     taskStep pf cfg quiet (s, r, ls) (StepLoad i) (t, r, ls[i := (name, pc')])"

inductive_cases step_refreshE: "taskStep pf cfg quiet x StepRefresh y"
inductive_cases step_loadE: "taskStep pf cfg quiet x (StepLoad i) y"
inductive_simps begin_refresh_simps: "taskStep pf cfg quiet x BeginRefresh y"
inductive_simps start_load_simps: "taskStep pf cfg quiet x (StartLoad name) y"

section \<open>Freshness\<close>

text \<open>What is known of one load: its URL has the current version, its module is that on disk.\<close>

fun loadInv :: "platform \<Rightarrow> bool \<Rightarrow> 'a fn_state_scheme \<Rightarrow> string \<times> load_pc \<Rightarrow> bool" where
  "loadInv pf fresh s (n, Importing url) \<longleftrightarrow> url = importURL (functionPath pf n) (moduleVersion s)"
| "loadInv pf fresh s (n, Storing m) \<longleftrightarrow> (fresh \<longrightarrow> loadUncached pf (files s) n = Inr m)"
| "loadInv pf fresh s _ \<longleftrightarrow> True"

fun loadsInv :: "platform \<Rightarrow> 'a tasks \<Rightarrow> bool" where
  "loadsInv pf (s, r, ls) \<longleftrightarrow>
     loaderInv s \<and> (r = Idle True \<longrightarrow> loaderFresh pf s) \<and> (\<forall>l \<in> set ls. loadInv pf (r = Idle True) s l)"

lemma loadInv_frame:
  assumes "loadInv pf fresh s l" and "moduleVersion t = moduleVersion s" and "files t = files s" and "fresh' \<Longrightarrow> fresh"
  shows "loadInv pf fresh' t l"
  using assms by (cases "(pf, fresh, s, l)" rule: loadInv.cases) auto

lemma loadInv_unfresh:
  assumes "loadInv pf fresh s l" and "moduleVersion t = moduleVersion s"
  shows "loadInv pf False t l"
  using assms by (cases "(pf, fresh, s, l)" rule: loadInv.cases) auto

lemma loadInv_idle: "\<not> inFlight (snd l) \<Longrightarrow> loadInv pf fresh s l"
  by (cases "(pf, fresh, s, l)" rule: loadInv.cases) auto

lemma import_step:
  assumes "importModule pf (importURL p (moduleVersion s)) p s = (r, t)"
  shows "loaderInv s \<Longrightarrow> loaderInv t" "loaderFresh pf s \<Longrightarrow> loaderFresh pf t"
    "loaderFresh pf s \<Longrightarrow> r = Inr m \<Longrightarrow> \<exists>b. fsReadFile (files s) p = Inr b \<and> evalModule pf b = Inr m"
proof -
  show "loaderInv t" if "loaderInv s"
    using that importModule_frame [OF assms] unfolding loaderInv_def
    by (auto simp: mapGet_set importURL_inject split: if_splits)
  show "loaderFresh pf t" if "loaderFresh pf s"
    using assms that
    by (auto simp: importModule_def loaderFresh_def mapGet_set importURL_inject Let_def
        split: option.splits sum.splits if_splits)
  show "\<exists>b. fsReadFile (files s) p = Inr b \<and> evalModule pf b = Inr m" if "loaderFresh pf s" "r = Inr m"
    using assms that
    by (fastforce simp: importModule_def loaderFresh_def Let_def split: option.splits sum.splits)
qed

text \<open>One step of a load, from a state with the invariant.\<close>

lemma loadStep_inv:
  assumes step: "loadStep pf n pc s = (pc', t)" and inv: "loaderInv s" and l: "loadInv pf fresh s (n, pc)"
    and fresh: "fresh \<Longrightarrow> loaderFresh pf s"
  shows "loaderInv t \<and> (fresh \<longrightarrow> loaderFresh pf t) \<and> loadInv pf fresh t (n, pc')"
proof (cases pc)
  case (Importing url)
  then have url: "url = importURL (functionPath pf n) (moduleVersion s)" using l by simp
  obtain r u where i: "importModule pf url (functionPath pf n) s = (r, u)"
    by (cases "importModule pf url (functionPath pf n) s")
  note st = import_step [OF i [unfolded url]]
  have files: "files u = files s" using importModule_frame [OF i] by simp
  have t: "t = u" "pc' = (case r of Inl e \<Rightarrow> Loaded (Inl e) | Inr m \<Rightarrow> Storing m)"
    using step Importing i by (auto split: sum.splits)
  have "loadUncached pf (files u) n = Inr m" if f: fresh and r: "r = Inr m" for m
  proof -
    obtain b where b: "fsReadFile (files s) (functionPath pf n) = Inr b" "evalModule pf b = Inr m"
      using st(3) [OF fresh [OF f] r] by blast
    then have "fsExists (files s) (functionPath pf n)" by (simp add: fsReadFile_Inr fsExists_def)
    with b show ?thesis by (simp add: files loadUncached_def)
  qed
  then show ?thesis using st(1) [OF inv] st(2) fresh t by (auto split: sum.splits)
next
  case (Storing m)
  with step l inv fresh show ?thesis
    by (auto simp: loaderInv_def loaderFresh_def mapGet_set split: if_splits)
qed (use step inv fresh in \<open>auto split: option.splits if_splits\<close>)

lemma loadsInv_step:
  assumes "loadsInv pf x" and "taskStep pf cfg True x e y"
  shows "loadsInv pf y"
  using assms(2)
proof cases
  case (begin_refresh s ok ls)
  have v: "moduleVersion (refreshBegin cfg s) = moduleVersion s" "loaderInv (refreshBegin cfg s) = loaderInv s"
    by (simp_all add: refreshBegin_def logInfo_def modify_def loaderInv_def)
  have "loadInv pf False (refreshBegin cfg s) l" if "l \<in> set ls" for l
    by (rule loadInv_unfresh [OF _ v(1)]) (use assms(1) begin_refresh(1) that in auto)
  with assms(1) begin_refresh v(2) show ?thesis by simp
next
  case (step_refresh pc s pc' t ls)
  have s: "loaderInv s" "\<forall>l \<in> set ls. loadInv pf False s l" using assms(1) step_refresh(1) by auto
  show ?thesis
  proof (cases "\<exists>n. pc = Clearing n")
    case True
    then obtain n where n: "pc = Clearing n" by blast
    note c = clearing_step [OF step_refresh(5) [unfolded n]]
    have "\<forall>(n, q) \<in> set ls. \<not> inFlight q" using step_refresh(6) n by simp
    then have "\<forall>l \<in> set ls. loadInv pf True t l" by (fastforce intro: loadInv_idle)
    moreover have "loaderFresh pf t" "loaderInv t" using refresh_fresh [OF s(1)] c by blast+
    ultimately show ?thesis using step_refresh(3) c by simp
  next
    case False
    have "loaderPart t = loaderPart s"
      using refreshStep_blind [OF step_refresh(5) loaderPart_blind refl] False by blast
    then have t: "moduleVersion t = moduleVersion s" "loaderInv t"
      using s(1) by (simp_all add: loaderPart_def loaderInv_def)
    have "pc' \<noteq> Completed"
      using finished_only_by_clearing [of pf cfg pc s t] step_refresh(4,5) False by auto
    then have "afterStep pc' \<noteq> Idle True" by (cases pc' rule: afterStep.cases) auto
    with s(2) t loadInv_unfresh [OF _ t(1)] step_refresh(3) show ?thesis by auto
  qed
next
  case (start_load s r ls name)
  with assms(1) show ?thesis by auto
next
  case (step_load i ls name pc s pc' t r)
  have l: "loadInv pf (r = Idle True) s (name, pc)" "loaderInv s" "r = Idle True \<Longrightarrow> loaderFresh pf s"
    using assms(1) step_load(1,4,5) nth_mem [OF step_load(4)] by auto
  note t = loadStep_inv [OF step_load(6) l(2,1,3)] and f = loadStep_frame [OF step_load(6)]
  have "loadInv pf (r = Idle True) t q" if "q \<in> set (ls[i := (name, pc')])" for q
  proof (cases "q = (name, pc')")
    case False
    with that have "q \<in> set ls" using set_update_subset_insert [of ls i "(name, pc')"] by auto
    then have "loadInv pf (r = Idle True) s q" using assms(1) step_load(1) by auto
    then show ?thesis by (rule loadInv_frame [OF _ f(2,1)])
  qed (use t in simp)
  with t step_load(3) show ?thesis by simp
qed

interpretation loads: inductive_invariant "loadsInv pf" "taskStep pf cfg True" "loadsInv pf"
  for pf cfg
  by unfold_locales (auto intro: loadsInv_step)

section \<open>A refresh is not disturbed by loads\<close>

text \<open>The part of the state a refresh reads: loads never change it.\<close>

definition diskPart where
  "diskPart s = (files s, moduleVersion s)"

lemma proceed_view:
  assumes "rel_prod (=) R x y"
  shows "rel_prod (=) R (proceed x k) (proceed y k)"
  using assms by (cases x; cases y; cases "fst x") auto

definition sameDisk :: "'a fn_state_scheme \<Rightarrow> 'a fn_state_scheme \<Rightarrow> bool" where
  "sameDisk s t \<longleftrightarrow> diskPart s = diskPart t"

lemma sameDisk_run: "sameDisk s t \<Longrightarrow> rel_prod (=) sameDisk (run pf cmd s) (run pf cmd t)"
  by (auto simp: run_def sameDisk_def diskPart_def Let_def split: prod.splits spawn_result.splits)

lemma sameDisk_onFiles: "sameDisk s t \<Longrightarrow> rel_prod (=) sameDisk (onFiles f s) (onFiles f t)"
  by (auto simp: onFiles_def sameDisk_def diskPart_def split: sum.splits)

lemma sameDisk_read: "sameDisk s t \<Longrightarrow> rel_prod (=) sameDisk (proceed (r, s) k) (proceed (r, t) k)"
  by (cases r) simp_all

lemma sameDisk_files: "sameDisk s t \<Longrightarrow> files t = files s"
  by (simp add: sameDisk_def diskPart_def)

lemma refreshStep_sameDisk:
  assumes "sameDisk s t"
  shows "rel_prod (=) sameDisk (refreshStep pf cfg pc s) (refreshStep pf cfg pc t)"
proof (cases "(pf, cfg, pc, s)" rule: refreshStep.cases)
  case 3
  with sameDisk_run [OF assms, of pf "gitReset cfg ''origin/main''"] show ?thesis
    by (auto split: prod.splits sum.splits)
next
  case 5
  have "rel_prod (=) sameDisk (andThen (fromResult (repoURL pf cfg)) (\<lambda>url. run pf (gitClone cfg url)) s)
      (andThen (fromResult (repoURL pf cfg)) (\<lambda>url. run pf (gitClone cfg url)) t)"
    using assms sameDisk_run [OF assms] by (cases "repoURL pf cfg") (simp_all add: andThen_def fromResult_def throw_def)
  from proceed_view [OF this] 5 show ?thesis by simp
next
  case 15
  with assms show ?thesis
    by (auto simp: clearModuleCache_def logInfo_def modify_def andThen_def sameDisk_def diskPart_def)
qed (use assms proceed_view [OF sameDisk_run [OF assms]]
      proceed_view [OF sameDisk_onFiles [OF assms]] sameDisk_read [OF assms] sameDisk_files [OF assms]
    in simp_all)

lemma refreshRun_sameDisk:
  fixes s :: "'a fn_state_scheme"
  assumes "sameDisk s t"
  shows "rel_prod (=) sameDisk (refreshRun pf cfg pc s) (refreshRun pf cfg pc t)"
  using assms
proof (induction pf cfg pc s arbitrary: t rule: refreshRun.induct)
  case (1 pf cfg pc s)
  show ?case
  proof (cases "refreshDone pc")
    case True
    with 1(2) show ?thesis by (simp add: refreshRun.simps [of pf cfg pc])
  next
    case False
    obtain pc' s' where s': "refreshStep pf cfg pc s = (pc', s')" by (cases "refreshStep pf cfg pc s")
    with refreshStep_sameDisk [OF 1(2), of pf cfg pc] obtain t' where
      t': "refreshStep pf cfg pc t = (pc', t')" "sameDisk s' t'" by (cases "refreshStep pf cfg pc t") auto
    from 1(1) [OF False s' [symmetric] t'(2)] show ?thesis by (simp add: run_step [OF False] s' t'(1))
  qed
qed

text \<open>What a refresh in progress, or the last one, comes to: its end and the disk it leaves.\<close>

fun endsAs :: "platform \<Rightarrow> settings \<Rightarrow> refresh_pc \<times> fs \<times> nat \<Rightarrow> 'a tasks \<Rightarrow> bool" where
  "endsAs pf cfg o' (s, Refreshing pc, ls) \<longleftrightarrow> map_prod id diskPart (refreshRun pf cfg pc s) = o'"
| "endsAs pf cfg (pc, d) (s, Idle ok, ls) \<longleftrightarrow> diskPart s = d \<and> ok = (pc = Completed)"

definition noBegin :: "platform \<Rightarrow> settings \<Rightarrow> bool \<Rightarrow> 'a tasks \<Rightarrow> task_event \<Rightarrow> 'a tasks \<Rightarrow> bool" where
  "noBegin pf cfg quiet x e y \<longleftrightarrow> taskStep pf cfg quiet x e y \<and> e \<noteq> BeginRefresh"

lemma endsAs_step:
  fixes x :: "'a tasks"
  assumes "endsAs pf cfg o' x" and "noBegin pf cfg quiet x e y"
  shows "endsAs pf cfg o' y"
proof -
  from assms(2) have "taskStep pf cfg quiet x e y" "e \<noteq> BeginRefresh" by (simp_all add: noBegin_def)
  from this(1) show ?thesis
  proof cases
    case (step_refresh pc s pc' t ls)
    have "map_prod id diskPart (refreshRun pf cfg pc' t) = o'"
      using assms(1) step_refresh(1,5) by (simp add: run_step [OF step_refresh(4)])
    then show ?thesis using step_refresh(3) by (cases pc' rule: afterStep.cases) auto
  next
    case (step_load i ls name pc s pc' t r)
    have "sameDisk s t" using loadStep_frame [OF step_load(6)] by (simp add: sameDisk_def diskPart_def)
    then have "map_prod id diskPart (refreshRun pf cfg q t) = map_prod id diskPart (refreshRun pf cfg q s)" for q
      using refreshRun_sameDisk [of s t pf cfg q]
      by (cases "refreshRun pf cfg q s"; cases "refreshRun pf cfg q t") (simp add: sameDisk_def)
    moreover have "diskPart t = diskPart s" using \<open>sameDisk s t\<close> by (simp add: sameDisk_def)
    ultimately show ?thesis
      using assms(1) step_load(1,3) by (cases "(pf, cfg, o', x)" rule: endsAs.cases) auto
  next
    case (start_load s r ls name)
    with assms(1) show ?thesis by (cases "(pf, cfg, o', x)" rule: endsAs.cases) auto
  qed (use \<open>e \<noteq> BeginRefresh\<close> in simp)
qed

interpretation ends: inductive_invariant "endsAs pf cfg o'" "noBegin pf cfg quiet" "endsAs pf cfg o'"
  for pf cfg o' quiet
  by unfold_locales (auto intro: endsAs_step)

section \<open>The window without functions\<close>

text \<open>The state of the runtime directory at the points between listing and copying.\<close>

fun windowInv :: "platform \<Rightarrow> settings \<Rightarrow> refresh_pc \<Rightarrow> 'a fn_state_scheme \<Rightarrow> bool" where
  "windowInv pf cfg Listing s \<longleftrightarrow> dirReady (runtimeFunctionsPath pf) (repoFunctionsPath cfg) s"
| "windowInv pf cfg (Removing entries) s \<longleftrightarrow>
     dirReady (runtimeFunctionsPath pf) (repoFunctionsPath cfg) s \<and> list_all isFunctionFile entries
     \<and> (\<forall>f. isFunctionFile f \<and> dirEntry (runtimeFunctionsPath pf) s f \<noteq> None \<longrightarrow> f \<in> set entries)"
| "windowInv pf cfg CheckingSource s \<longleftrightarrow>
     (\<forall>f. isFunctionFile f \<longrightarrow> dirEntry (runtimeFunctionsPath pf) s f = None)"
| "windowInv pf cfg ListingSource s \<longleftrightarrow>
     (\<forall>f. isFunctionFile f \<longrightarrow> dirEntry (runtimeFunctionsPath pf) s f = None)"
| "windowInv pf cfg _ s \<longleftrightarrow> True"

lemma windowInv_frame: "files t = files s \<Longrightarrow> windowInv pf cfg pc t = windowInv pf cfg pc s"
  by (cases "(pf, cfg, pc, s)" rule: windowInv.cases) (simp_all add: dirReady_def dirEntry_def)

lemma windowInv_removing:
  assumes "dirReady (runtimeFunctionsPath pf) (repoFunctionsPath cfg) s" and "list_all isFunctionFile entries"
    and "\<forall>f. isFunctionFile f \<and> dirEntry (runtimeFunctionsPath pf) s f \<noteq> None \<longrightarrow> f \<in> set entries"
  shows "windowInv pf cfg (removing entries) s"
  using assms by (auto simp: removing_def)

lemma windowInv_step:
  assumes inst: "installed pf" and fsI: "fsInv (files s)" and inv: "windowInv pf cfg pc s"
    and step: "refreshStep pf cfg pc s = (pc', t)"
  shows "windowInv pf cfg pc' t"
proof -
  let ?rt = "runtimeFunctionsPath pf"
  show ?thesis
  proof (cases "(pf, cfg, pc, s)" rule: refreshStep.cases)
    case 6
    have "dirReady ?rt (repoFunctionsPath cfg) u" if "onFiles (fsMkdir ?rt) s = (Inr v, u)" for u v
      using ensure_ready(1) [OF inst fsI repoFunctionsPath_key(1) source_neq_runtime [OF inst]]
        that by (simp add: ensureRuntimeDir_def)
    with 6 step show ?thesis
      by (cases "onFiles (fsMkdir ?rt) s"; cases "fst (onFiles (fsMkdir ?rt) s)") auto
  next
    case 7
    then have ready: "dirReady ?rt (repoFunctionsPath cfg) s" using inv by simp
    then have "fsReaddir (files s) ?rt = Inr (fsEntries (files s) (pathKey ?rt))"
      by (simp add: fsReaddir_Inr dirReady_def)
    then have pc': "pc' = removing (filter isFunctionFile (fsEntries (files s) (pathKey ?rt)))" "t = s"
      using step 7 by auto
    show ?thesis unfolding pc'
      by (rule windowInv_removing [OF ready]) (auto simp: list_all_iff fsEntries_iff [OF fsI] dirEntry_def)
  next
    case (9 pf' cfg' entry entries s')
    then have e: "isFunctionFile entry" "list_all isFunctionFile entries"
      and ready: "dirReady ?rt (repoFunctionsPath cfg) s"
      and all: "\<And>f. isFunctionFile f \<Longrightarrow> dirEntry ?rt s f \<noteq> None \<Longrightarrow> f \<in> set (entry # entries)"
      using inv by auto
    show ?thesis
    proof (cases "fst (onFiles (fsRmForce (pathJoin [?rt, entry])) s)")
      case (Inr u)
      then obtain v where v: "onFiles (fsRmForce (pathJoin [?rt, entry])) s = (Inr u, v)"
        by (cases "onFiles (fsRmForce (pathJoin [?rt, entry])) s") auto
      note rm = rtdir.remove_Inr [OF ready isFunctionFile_plain [OF e(1)] v]
      have pc': "pc' = removing entries" "t = v" using step 9 v by simp_all
      show ?thesis unfolding pc'
        by (rule windowInv_removing [OF rm(1) e(2)]) (use all rm(2) in \<open>auto split: if_splits\<close>)
    next
      case (Inl err)
      with step 9 show ?thesis by (cases "onFiles (fsRmForce (pathJoin [?rt, entry])) s") auto
    qed
  next
    case 3
    with step show ?thesis by (auto split: prod.splits sum.splits)
  next
    case 8
    with inv step show ?thesis by auto
  next
    case 10
    with inv step show ?thesis by (auto split: if_splits)
  qed (use step in \<open>auto dest!: proceedD simp: reading_def split: if_splits\<close>)
qed

fun windowsInv :: "platform \<Rightarrow> settings \<Rightarrow> 'a tasks \<Rightarrow> bool" where
  "windowsInv pf cfg (s, Refreshing pc, ls) \<longleftrightarrow> fsInv (files s) \<and> windowInv pf cfg pc s"
| "windowsInv pf cfg (s, Idle ok, ls) \<longleftrightarrow> fsInv (files s)"

lemma windowsInv_files: "windowsInv pf cfg (s, r, ls) \<Longrightarrow> fsInv (files s)"
  by (cases r) simp_all

lemma windowsInv_frame:
  assumes "files t = files s" and "windowsInv pf cfg (s, r, ls)"
  shows "windowsInv pf cfg (t, r, ls')"
  using assms(2) windowInv_frame [OF assms(1)] assms(1) by (cases r) simp_all

lemma windowsInv_step:
  assumes inst: "installed pf" and tidy: "commandsTidy pf" and inv: "windowsInv pf cfg x"
    and step: "taskStep pf cfg quiet x e y"
  shows "windowsInv pf cfg y"
  using step
proof cases
  case (begin_refresh s ok ls)
  with inv show ?thesis by (simp add: refreshBegin_def logInfo_def modify_def)
next
  case (step_refresh pc s pc' t ls)
  have s: "fsInv (files s)" "windowInv pf cfg pc s" using inv step_refresh(1) by simp_all
  have "fsInv (files t)" "windowInv pf cfg pc' t"
    using refreshStep_fsInv [OF step_refresh(5) tidy s(1)] windowInv_step [OF inst s step_refresh(5)] by simp_all
  then show ?thesis using step_refresh(3) by (cases pc' rule: afterStep.cases) auto
next
  case (start_load s r ls name)
  with inv windowsInv_frame [OF refl] show ?thesis by blast
next
  case (step_load i ls name pc s pc' t r)
  with inv windowsInv_frame [OF loadStep_frame(1) [OF step_load(6)]] show ?thesis by blast
qed

interpretation window: inductive_invariant "windowsInv pf cfg" "taskStep pf cfg quiet"
    "\<lambda>x. installed pf \<and> commandsTidy pf \<longrightarrow> windowsInv pf cfg x"
  for pf cfg quiet
  by unfold_locales (auto intro: windowsInv_step)

end
