(* ===== verification/Rt_Refresh.thy ===== *)
theory Rt_Refresh
  imports Rt_Sync
begin

text \<open>
  What refreshing the code guarantees: which commands run, what the runtime directory holds
  afterwards, when a refresh succeeds and what is left when it fails; which files are functions
  and how they are listed; what the clone URL says.
\<close>

section \<open>Example data\<close>

text \<open>The process with the example files, before anything has run.\<close>

definition demoState :: fn_state where
  "demoState = \<lparr>files = demoFiles, console = [], spawned = [], modules = [], moduleVersion = 1, importTable = []\<rparr>"

lemma demoState_simps [simp]:
  "files demoState = demoFiles" "console demoState = []" "spawned demoState = []"
  "modules demoState = []" "moduleVersion demoState = 1" "importTable demoState = []"
  by (simp_all add: demoState_def)

lemma demo_repoPath_key: "pathKey (repoPath demoSettings) = [''tmp'', ''shop'']"
  by (simp add: repoPath_def demoSettings_def canonical_tmp plainName_def path_simps)
    (simp add: pathKey_def)

lemma demo_repoFunctions_key: "pathKey (repoFunctionsPath demoSettings) = [''tmp'', ''shop'', ''functions'', ''ts'']"
  by (simp add: repoFunctionsPath_key demo_repoPath_key)

lemma demo_runtime_key: "pathKey (runtimeFunctionsPath demoPlatform) = [''app'', ''pkg'', ''functions'']"
  using runtimeFunctionsPath_key(2) [OF demo_installed] by (simp add: demoPlatform_def pathKey_def)

lemma demo_apart:
  "pathKey (repoFunctionsPath demoSettings) \<noteq> pathKey (runtimeFunctionsPath demoPlatform) @ [f]"
  by (simp add: demo_repoFunctions_key demo_runtime_key)

lemma demo_ready: "dirReady (runtimeFunctionsPath demoPlatform) (repoFunctionsPath demoSettings) demoState"
  by (simp add: dirReady_def demo_fsInv demo_repoFunctions_key demo_runtime_key
      runtimeFunctionsPath_key(1) [OF demo_installed] repoFunctionsPath_key(1))
    (simp add: demoFiles_def fsStat_def mapGet_def)

section \<open>Properties\<close>

text \<open>
  A file is taken for a function exactly when its name is a non-empty word of letters,
  digits, underscores and hyphens followed by \<^verbatim>\<open>.ts\<close>; the second test of the code, for
  \<^verbatim>\<open>.d.ts\<close>, never decides.
\<close>

theorem isFunctionFile_spec:
  "(isFunctionFile name \<longleftrightarrow> (\<exists>stem. name = stem @ ''.ts'' \<and> stem \<noteq> [] \<and> list_all nameChar stem))
    \<and> isFunctionFile name = functionNamePattern name"
proof -
  have "functionNamePattern name \<longleftrightarrow> (\<exists>stem. name = stem @ ''.ts'' \<and> stem \<noteq> [] \<and> list_all nameChar stem)"
    by (auto simp: functionNamePattern_def endsWith_iff)
  then show ?thesis using isFunctionFile_iff by simp
qed

text \<open>
  C36. Listing the functions does not change the state and gives, sorted and without repetition,
  exactly the names whose file is in the runtime directory; it fails only when a file stands in
  the directory's place.
\<close>

theorem listFunctions_spec:
  assumes "fsInv (files s)"
  shows "(case listFunctions pf s of
      (Inr names, t) \<Rightarrow> t = s \<and> sorted names \<and> distinct names \<and>
        set names = {n. functionName n \<and> dirEntry (runtimeFunctionsPath pf) s (n @ ''.ts'') \<noteq> None}
    | (Inl e, t) \<Rightarrow> t = s \<and> (\<exists>b. fsStat (files s) (pathKey (runtimeFunctionsPath pf)) = Some (File b)))"
  by (rule listFunctions_outcome [OF assms])

theorem listFunctions_spec_witness:
  "\<exists>names. listFunctions demoPlatform demoState = (Inr names, demoState)
    \<and> sorted names \<and> distinct names \<and> ''old'' \<in> set names \<and> ''hello'' \<notin> set names"
proof -
  have inv: "fsInv (files demoState)" by (simp add: demo_fsInv)
  have dir: "fsStat (files demoState) (pathKey (runtimeFunctionsPath demoPlatform)) = Some Dir"
    using demo_ready by (simp only: dirReady_def)
  have entries: "dirEntry (runtimeFunctionsPath demoPlatform) demoState ''old.ts'' \<noteq> None"
    "dirEntry (runtimeFunctionsPath demoPlatform) demoState ''hello.ts'' = None"
    by (simp_all add: dirEntry_def demo_runtime_key) (simp_all add: demoFiles_def fsStat_def mapGet_def)
  obtain names where l: "listFunctions demoPlatform demoState = (Inr names, demoState)"
    using listFunctions_spec [OF inv, of demoPlatform] dir by (auto split: prod.splits sum.splits)
  have "functionName ''old''" by (simp add: functionName_def nameChar_def)
  with l entries show ?thesis
    using listFunctions_spec [OF inv, of demoPlatform] by simp
qed

text \<open>
  C34. With a token set, the clone URL's authority reads back as exactly the owner, the token and
  the host of the base URL, whatever characters the owner and the token hold; its path is the
  owner and the project alone, so a path of the base URL is dropped.
\<close>

theorem repoURL_credentials:
  assumes "gitToken cfg \<noteq> []" and "parseURL pf (vcsBaseURL cfg) = Inr (protocol, host)"
    and "CHR ''@'' \<notin> set host" and "CHR ''/'' \<notin> set host"
  shows "\<exists>url. repoURL pf cfg = Inr url
    \<and> readCredentials (urlAuthority protocol url)
        = (if gitUser cfg = [] then ''git'' else gitUser cfg, gitToken cfg, host)
    \<and> urlPath protocol url
        = ''/'' @ (if gitUser cfg = [] then ''git'' else gitUser cfg) @ ''/'' @ project cfg"
  using repoURL_read [OF assms] .

theorem repoURL_credentials_witness:
  "\<exists>url. repoURL demoPlatform demoSettings = Inr url
    \<and> readCredentials (urlAuthority ''https:'' url) = (''ops@example.org'', ''s3:cret'', ''git.example.org'')
    \<and> urlPath ''https:'' url = ''/ops@example.org/shop''"
  using repoURL_credentials [of demoSettings demoPlatform "''https:''" "''git.example.org''"]
  by (simp add: demoSettings_def demoPlatform_def)

text \<open>
  C33. Refreshing the clone runs at most three commands: a fetch and one or two resets when there
  is a clone, one clone otherwise. After a failed fetch nothing is reset, and the second branch
  name is only tried when resetting to the first has failed.
\<close>

theorem syncRepo_commands:
  assumes "syncRepo pf cfg s = (r, t)"
  shows "\<exists>cmds. spawned t = spawned s @ cmds \<and>
    (if fsExists (files s) (repoPath cfg)
     then cmds = [gitFetch cfg] \<and> (\<exists>e. r = Inl e)
       \<or> cmds = [gitFetch cfg, gitReset cfg ''origin/main''] \<and> r = Inr ()
       \<or> cmds = [gitFetch cfg, gitReset cfg ''origin/main'', gitReset cfg ''origin/master'']
     else (case repoURL pf cfg of
             Inl e \<Rightarrow> cmds = [] \<and> r = Inl e
           | Inr url \<Rightarrow> cmds = [gitClone cfg url]))"
proof (cases "fsExists (files s) (repoPath cfg)")
  case False
  with assms show ?thesis
    by (auto simp: syncRepo_def andThen_def fromResult_def dest!: run_frame split: sum.splits prod.splits)
next
  case True
  obtain x u where f: "run pf (gitFetch cfg) s = (x, u)" by (cases "run pf (gitFetch cfg) s")
  obtain y v where m: "run pf (gitReset cfg ''origin/main'') u = (y, v)"
    by (cases "run pf (gitReset cfg ''origin/main'') u")
  obtain z w where ma: "run pf (gitReset cfg ''origin/master'') v = (z, w)"
    by (cases "run pf (gitReset cfg ''origin/master'') v")
  have sp: "spawned u = spawned s @ [gitFetch cfg]" "spawned v = spawned u @ [gitReset cfg ''origin/main'']"
    "spawned w = spawned v @ [gitReset cfg ''origin/master'']"
    using run_frame [OF f] run_frame [OF m] run_frame [OF ma] by blast+
  show ?thesis
  proof (cases x)
    case (Inl e)
    with assms True f have "r = Inl e" "t = u" by (simp_all add: syncRepo_def andThen_def)
    with True sp show ?thesis by simp
  next
    case x: (Inr a)
    show ?thesis
    proof (cases y)
      case (Inl e)
      with assms True f m ma x have "t = w" by (simp add: syncRepo_def andThen_def tryCatch_def)
      with True sp show ?thesis by simp
    next
      case (Inr b)
      with assms True f m x have "r = Inr ()" "t = v" by (simp_all add: syncRepo_def andThen_def tryCatch_def)
      with True sp show ?thesis by simp
    qed
  qed
qed

theorem syncRepo_commands_witness:
  "\<exists>cmds. spawned (snd (syncRepo demoPlatform demoSettings demoState)) = cmds
    \<and> cmds \<in> {[gitFetch demoSettings],
         [gitFetch demoSettings, gitReset demoSettings ''origin/main''],
         [gitFetch demoSettings, gitReset demoSettings ''origin/main'', gitReset demoSettings ''origin/master'']}"
proof -
  have "fsExists (files demoState) (repoPath demoSettings)"
    unfolding fsExists_def demo_repoPath_key demoState_simps by (simp add: demoFiles_def fsStat_def mapGet_def)
  then show ?thesis
    using syncRepo_commands [OF prod.collapse [symmetric], of demoPlatform demoSettings demoState] by auto
qed

text \<open>
  C35. When the first clone of a repository fails, the error that is thrown (and then logged)
  holds the access token.
\<close>

theorem clone_error_holds_token:
  assumes "\<not> fsExists (files s) (repoPath cfg)" and "gitToken cfg \<noteq> []"
    and "repoURL pf cfg = Inr url"
    and "spawnProc pf (gitClone cfg url) (files s) = (Exited code out err, fs)" and "code \<noteq> 0"
  shows "\<exists>e t. syncRepo pf cfg s = (Inl e, t) \<and> contains (err_string e) (encodeGitPart (gitToken cfg))"
proof -
  let ?owner = "if gitUser cfg = [] then ''git'' else gitUser cfg"
  obtain protocol host where "url = protocol @ ''//'' @ encodeGitPart ?owner @ '':''
      @ encodeGitPart (gitToken cfg) @ ''@'' @ host @ ''/'' @ ?owner @ ''/'' @ project cfg"
    using assms(2,3) by (auto simp: repoURL_def Let_def split: sum.splits)
  then obtain pre post where url: "url = pre @ encodeGitPart (gitToken cfg) @ post"
    using that [of "protocol @ ''//'' @ encodeGitPart ?owner @ '':''"] by simp
  have "syncRepo pf cfg s = (Inl (commandError (gitClone cfg url) out err),
      s\<lparr>files := fs, spawned := spawned s @ [gitClone cfg url]\<rparr>)"
    using assms(1,3-5) by (simp add: syncRepo_def andThen_def fromResult_def run_def Let_def)
  moreover have "contains (err_string (commandError (gitClone cfg url) out err)) (encodeGitPart (gitToken cfg))"
    unfolding contains_iff
    by (rule exI [of _ "''Error: command failed (git clone '' @ pre"],
        rule exI [of _ "post @ '' '' @ repoPath cfg @ '')'' @ [CHR 0x0A] @ ''stdout: '' @ out
          @ [CHR 0x0A] @ ''stderr: '' @ err"])
      (simp add: commandError_def gitClone_def url)
  ultimately show ?thesis by blast
qed

theorem clone_error_holds_token_witness:
  "\<exists>e t. syncRepo (demoPlatform\<lparr>spawnProc := \<lambda>cmd fs. (Exited 128 [] ''denied'', fs)\<rparr>) demoSettings
      (demoState\<lparr>files := []\<rparr>) = (Inl e, t)
    \<and> contains (err_string e) (encodeGitPart ''s3:cret'')"
proof -
  let ?pf = "demoPlatform\<lparr>spawnProc := \<lambda>cmd fs. (Exited 128 [] ''denied'', fs)\<rparr>"
  have absent: "\<not> fsExists (files (demoState\<lparr>files := []\<rparr>)) (repoPath demoSettings)"
    unfolding fsExists_def demo_repoPath_key by (simp add: fsStat_def)
  have token: "gitToken demoSettings = ''s3:cret''" by (simp add: demoSettings_def)
  obtain url where url: "repoURL ?pf demoSettings = Inr url"
    by (cases "gitToken demoSettings = []") (simp_all add: repoURL_def demoPlatform_def Let_def)
  have sp: "spawnProc ?pf cmd fs = (Exited 128 [] ''denied'', fs)" for cmd fs by simp
  show ?thesis
    by (rule clone_error_holds_token [where pf = ?pf and cfg = demoSettings, unfolded token, OF absent _ url sp])
      simp_all
qed

text \<open>
  C17. After a successful refresh the runtime directory holds, under every function file's name,
  exactly what the clone holds there, and under every other name what it held before.
\<close>

theorem refresh_mirrors_clone:
  assumes "installed pf" and "fsInv (files s)"
    and "syncRuntimeFunctionsDir pf cfg (repoFunctionsPath cfg) s = (Inr u, t)"
  shows "dirEntry (runtimeFunctionsPath pf) t f =
    (if isFunctionFile f then fsStat (files s) (pathKey (repoFunctionsPath cfg) @ [f])
     else dirEntry (runtimeFunctionsPath pf) s f)"
  by (rule sync_Inr(2) [OF assms(1,2) repoFunctionsPath_key(1) source_neq_runtime [OF assms(1)] assms(3)])

lemma demo_no_dirs:
  "isFunctionFile f \<Longrightarrow> dirEntry (runtimeFunctionsPath demoPlatform) demoState f \<noteq> Some Dir"
  "isFunctionFile f \<Longrightarrow> fsStat demoFiles (pathKey (repoFunctionsPath demoSettings) @ [f]) \<noteq> Some Dir"
  "fsStat demoFiles (pathKey (repoFunctionsPath demoSettings)) \<noteq> Some (File b)"
  by (simp_all add: dirEntry_def demo_runtime_key demo_repoFunctions_key)
    (simp_all add: demoFiles_def fsStat_def mapGet_def)

text \<open>The example state can be refreshed.\<close>

lemma demo_sync_ok:
  "\<exists>t. syncRuntimeFunctionsDir demoPlatform demoSettings (repoFunctionsPath demoSettings) demoState = (Inr (), t)"
  using sync_total [OF demo_installed demo_ready demo_apart] demo_no_dirs by simp

theorem refresh_mirrors_clone_witness:
  "\<exists>t. syncRuntimeFunctionsDir demoPlatform demoSettings (repoFunctionsPath demoSettings) demoState = (Inr (), t)
    \<and> dirEntry (runtimeFunctionsPath demoPlatform) t ''hello.ts'' = Some (File [104, 105])
    \<and> dirEntry (runtimeFunctionsPath demoPlatform) t ''old.ts'' = None
    \<and> dirEntry (runtimeFunctionsPath demoPlatform) t ''README.md'' = Some (File [35])"
proof -
  obtain t where t: "syncRuntimeFunctionsDir demoPlatform demoSettings (repoFunctionsPath demoSettings) demoState
      = (Inr (), t)" using demo_sync_ok by blast
  have inv: "fsInv (files demoState)" by (simp add: demo_fsInv)
  have names: "isFunctionFile ''hello.ts''" "isFunctionFile ''old.ts''" "\<not> isFunctionFile ''README.md''"
    by (simp_all add: isFunctionFile_def functionNamePattern_def endsWith_def nameChar_def)
  show ?thesis
    using t refresh_mirrors_clone [OF demo_installed inv t, of "''hello.ts''"]
      refresh_mirrors_clone [OF demo_installed inv t, of "''old.ts''"]
      refresh_mirrors_clone [OF demo_installed inv t, of "''README.md''"] names
    by (simp add: dirEntry_def demo_runtime_key demo_repoFunctions_key)
      (simp add: demoFiles_def fsStat_def mapGet_def)
qed



text \<open>
  C23. A refresh that fails, at whatever point, leaves the module cache, its version and the table
  of imported modules as they were: modules that were loaded keep being served.
\<close>

theorem failed_refresh_keeps_modules:
  assumes "syncRepoAndReload pf cfg s = (Inl e, t)"
  shows "modules t = modules s \<and> moduleVersion t = moduleVersion s \<and> importTable t = importTable s"
proof -
  let ?log = "logInfo ''syncing repo'' [(''project'', project cfg),
    (''repo_url'', vcsBaseURL cfg @ ''/'' @ gitUser cfg @ ''/'' @ project cfg)]"
  obtain s0 where l: "?log s = (Inr (), s0)" by (simp add: logInfo_def modify_def)
  have s0: "loaderPart s0 = loaderPart s" by (rule keepsD [OF keeps_blind(4) [OF loaderPart_blind] refl l])
  obtain x s1 where r: "syncRepo pf cfg s0 = (x, s1)" by (cases "syncRepo pf cfg s0")
  have s1: "loaderPart s1 = loaderPart s" by (rule keepsD [OF keeps_syncRepo [OF loaderPart_blind] s0 r])
  have "loaderPart t = loaderPart s"
  proof (cases x)
    case (Inl e')
    with assms l r s1 show ?thesis by (simp add: syncRepoAndReload_def andThen_Inr andThen_Inl)
  next
    case (Inr v)
    with assms l r have "syncRuntimeFunctionsDir pf cfg (repoFunctionsPath cfg) s1 = (Inl e, t)"
      by (simp add: syncRepoAndReload_def andThen_Inr)
    from sync_Inl [OF this] s1 show ?thesis by simp
  qed
  then show ?thesis by (simp add: loaderPart_def)
qed

theorem failed_refresh_keeps_modules_witness:
  "\<exists>e t. syncRepoAndReload (demoPlatform\<lparr>spawnProc := \<lambda>cmd fs. (Exited 1 [] [], [])\<rparr>) demoSettings
      (demoState\<lparr>modules := [(''old'', demoModule [120])]\<rparr>) = (Inl e, t)
    \<and> modules t = [(''old'', demoModule [120])]"
proof -
  let ?pf = "demoPlatform\<lparr>spawnProc := \<lambda>cmd fs. (Exited 1 [] [], [])\<rparr>"
    and ?s = "demoState\<lparr>modules := [(''old'', demoModule [120])]\<rparr>"
  have "fsExists demoFiles (repoPath demoSettings)"
    unfolding fsExists_def demo_repoPath_key by (simp add: demoFiles_def fsStat_def mapGet_def)
  then obtain e t where f: "syncRepoAndReload ?pf demoSettings ?s = (Inl e, t)"
    by (simp add: syncRepoAndReload_def syncRepo_def andThen_def logInfo_def modify_def run_def Let_def)
  from failed_refresh_keeps_modules [OF f] f show ?thesis by simp
qed

end
