(* ===== verification/Rt_JsonText.thy ===== *)
theory Rt_JsonText
  imports Rt_Json
begin

text \<open>
  \<^verbatim>\<open>JSON.parse\<close> inverts \<^verbatim>\<open>JSON.stringify\<close> on the values JSON can express: the lexer reads the
  text of a value back as the value's tokens, and the machine builds the value from them.
\<close>

section \<open>Values JSON can express\<close>

definition canonicalNumber :: "jsnum \<Rightarrow> bool" where
  "canonicalNumber x =
     (case x of
        Finite neg s n \<Rightarrow>
          if s = [] then \<not> neg \<and> n = 0
          else list_all isDigit s \<and> hd s \<noteq> CHR ''0'' \<and> last s \<noteq> CHR ''0''
      | _ \<Rightarrow> False)"

fun plainJSON :: "(jsnum \<Rightarrow> jsnum) \<Rightarrow> jsval \<Rightarrow> bool"
  and plainElems :: "(jsnum \<Rightarrow> jsnum) \<Rightarrow> jsval list \<Rightarrow> bool"
  and plainProps :: "(jsnum \<Rightarrow> jsnum) \<Rightarrow> (string \<times> jsval) list \<Rightarrow> bool"
where
  "plainJSON nearest JNull = True"
| "plainJSON nearest (JBool b) = True"
| "plainJSON nearest (JNum x) = (canonicalNumber x \<and> nearest x = x)"
| "plainJSON nearest (JString s) = wellFormed s"
| "plainJSON nearest (JArray vs) = plainElems nearest vs"
| "plainJSON nearest (JObject ps it ait) =
     (it = None \<and> ait = None \<and> distinct (map fst ps) \<and> orderProps ps = ps \<and> plainProps nearest ps)"
| "plainJSON nearest _ = False"
| "plainElems nearest [] = True"
| "plainElems nearest (v # vs) = (plainJSON nearest v \<and> plainElems nearest vs)"
| "plainProps nearest [] = True"
| "plainProps nearest ((k, v) # ps) = (wellFormed k \<and> plainJSON nearest v \<and> plainProps nearest ps)"

text \<open>The tokens of a value.\<close>

fun tokensOf :: "jsval \<Rightarrow> token list"
  and elemTokens :: "jsval list \<Rightarrow> token list"
  and propTokens :: "(string \<times> jsval) list \<Rightarrow> token list"
where
  "tokensOf JNull = [TNull]"
| "tokensOf (JBool b) = [if b then TTrue else TFalse]"
| "tokensOf (JNum x) = [TNumber x]"
| "tokensOf (JString s) = [TString s]"
| "tokensOf (JArray vs) = TOpenArray # elemTokens vs @ [TCloseArray]"
| "tokensOf (JObject ps it ait) = TOpenObject # propTokens ps @ [TCloseObject]"
| "tokensOf _ = []"
| "elemTokens [] = []"
| "elemTokens (v # vs) = tokensOf v @ (if vs = [] then [] else TComma # elemTokens vs)"
| "propTokens [] = []"
| "propTokens ((k, v) # ps) =
     TString k # TColon # tokensOf v @ (if ps = [] then [] else TComma # propTokens ps)"

text \<open>What may follow a value.\<close>

definition stops :: "string \<Rightarrow> bool" where
  "stops r = (r = [] \<or> hd r \<in> set [CHR '','', CHR '']'', CHR ''}''])"

lemma stops_Cons [simp]: "stops (CHR '','' # r)" "stops (CHR '']'' # r)" "stops (CHR ''}'' # r)" "stops []"
  by (simp_all add: stops_def)

section \<open>Reading a number back\<close>

lemma isDigit_chars [simp]:
  "\<not> isDigit CHR ''.''" "\<not> isDigit CHR ''e''" "\<not> isDigit CHR ''-''" "\<not> isDigit CHR ''+''"
  "\<not> isDigit CHR '',''" "\<not> isDigit CHR '']''" "\<not> isDigit CHR ''}''" "isDigit CHR ''0''"
  by (simp_all add: isDigit_def)

lemma stops_digits:
  assumes "list_all isDigit ds" and "stops r"
  shows "takeWhile isDigit (ds @ r) = ds" "dropWhile isDigit (ds @ r) = r"
  using assms by (cases r; induction ds; auto simp: stops_def)+

lemma digits_until:
  assumes "list_all isDigit ds" and "\<not> isDigit c"
  shows "takeWhile isDigit (ds @ c # r) = ds" "dropWhile isDigit (ds @ c # r) = c # r"
  using assms by (induction ds) auto

lemma stops_starts:
  "stops r \<Longrightarrow> \<not> startsWith r [c]" if "c \<notin> set [CHR '','', CHR '']'', CHR ''}'']"
  using that by (cases r) (auto simp: stops_def startsWith_def)

lemma lexFraction_none: "stops r \<Longrightarrow> lexFraction r = Some ([], r)"
  using stops_starts [of "CHR ''.''" r] by (simp add: lexFraction_def)

lemma lexExponent_none: "stops r \<Longrightarrow> lexExponent r = Some (0, r)"
  using stops_starts [of "CHR ''e''" r] stops_starts [of "CHR ''E''" r] by (simp add: lexExponent_def)

lemma lexInteger_digits:
  assumes "list_all isDigit ds" and "ds \<noteq> []" and "hd ds \<noteq> CHR ''0''" and "r = [] \<or> \<not> isDigit (hd r)"
  shows "lexInteger (ds @ r) = Some (ds, r)"
proof -
  have "takeWhile isDigit (ds @ r) = ds" "dropWhile isDigit (ds @ r) = r"
    using assms(1,4) by (cases r; induction ds; auto)+
  moreover have "\<not> startsWith (ds @ r) ''0''" using assms(2,3) by (cases ds) (auto simp: startsWith_def)
  ultimately show ?thesis using assms(2) by (simp add: lexInteger_def)
qed

lemma stops_not_digit: "stops r \<Longrightarrow> r = [] \<or> \<not> isDigit (hd r)"
  by (cases r) (auto simp: stops_def)

lemma lexFraction_digits:
  assumes "list_all isDigit ds" and "ds \<noteq> []" and "r = [] \<or> \<not> isDigit (hd r)"
  shows "lexFraction (CHR ''.'' # ds @ r) = Some (ds, r)"
proof -
  have "takeWhile isDigit (ds @ r) = ds" "dropWhile isDigit (ds @ r) = r"
    using assms(1,3) by (cases r; induction ds; auto)+
  then show ?thesis using assms(2) by (simp add: lexFraction_def startsWith_def)
qed

lemma lexExponent_text:
  assumes "stops r"
  shows "lexExponent (exponentText e @ r) = Some (e, r)"
proof -
  have d: "list_all isDigit (showNat (nat \<bar>e\<bar>))" using showNat_digits by (auto simp: list_all_iff)
  note s = stops_digits [OF d assms]
  show ?thesis
    using s showNat_neq_Nil [THEN not_sym] by (auto simp: lexExponent_def exponentText_def signedDigits_def startsWith_def Let_def
        digitsValue_showNat)
qed

lemma dropZeros_replicate:
  assumes "s \<noteq> []" and "last s \<noteq> CHR ''0''"
  shows "dropZeros (s @ replicate k CHR ''0'') = s"
proof -
  have "dropWhile (\<lambda>c. c = CHR ''0'') (replicate k CHR ''0'' @ rev s) = rev s"
    using assms by (induction k) (cases s rule: rev_cases; simp)+
  then show ?thesis by (simp add: dropZeros_def)
qed

lemma decimal_digits:
  assumes "s \<noteq> []" and "hd s \<noteq> CHR ''0''" and "last s \<noteq> CHR ''0''"
  shows "decimal neg (replicate j CHR ''0'' @ s @ replicate k CHR ''0'') n = Finite neg s (n - int j)"
proof -
  have "takeWhile (\<lambda>c. c = CHR ''0'') (replicate j CHR ''0'' @ s @ r) = replicate j CHR ''0''" for r
    using assms(1,2) by (induction j) (cases s; simp)+
  then show ?thesis using dropZeros_replicate [OF assms(1,3)] assms(1) by (simp add: decimal_def Let_def)
qed

lemma decimal_zero: "decimal neg ''0'' n = Finite neg [] 0"
  by (simp add: decimal_def dropZeros_def)

text \<open>The digits without the sign, in each of the forms a number is written in.\<close>

lemma lexDigits:
  assumes s: "list_all isDigit s" "s \<noteq> []" "hd s \<noteq> CHR ''0''" "last s \<noteq> CHR ''0''" and r: "stops r"
  shows "\<exists>ip s1 fp s2 e. lexInteger (digitsText s n @ r) = Some (ip, s1) \<and> lexFraction s1 = Some (fp, s2)
    \<and> lexExponent s2 = Some (e, r) \<and> decimal neg (ip @ fp) (int (length ip) + e) = Finite neg s n"
proof -
  let ?k = "int (length s)"
  have part: "list_all isDigit (take i s)" "list_all isDigit (drop i s)" for i
    using s(1) by (auto simp: list_all_iff dest: in_set_takeD in_set_dropD)
  note dec = decimal_digits [OF s(2-4), of neg]
  have zeros: "list_all isDigit (replicate i CHR ''0'')" for i by (simp add: list_all_iff)
  have htake: "take i s \<noteq> [] \<Longrightarrow> hd (take i s) \<noteq> CHR ''0''" for i using s(2,3) by (cases i) (simp_all add: hd_take)
  have dot: "CHR ''.'' # x = [] \<or> \<not> isDigit (hd (CHR ''.'' # x))" for x by simp
  have exp: "exponentText e @ r = [] \<or> \<not> isDigit (hd (exponentText e @ r))" for e by (simp add: exponentText_def)
  consider (whole) "?k \<le> n" "n \<le> 21" | (pointed) "0 < n" "n \<le> 21" "n < ?k" | (small) "- 6 < n" "n \<le> 0"
    | (one) "?k = 1" "n \<le> - 6 \<or> 21 < n" | (many) "?k \<noteq> 1" "n \<le> - 6 \<or> 21 < n"
    by linarith
  then show ?thesis
  proof cases
    case whole
    let ?ds = "s @ replicate (nat (n - ?k)) CHR ''0''"
    have shape: "digitsText s n = ?ds" using whole s(2) by (simp add: digitsText_def)
    have "lexInteger (?ds @ r) = Some (?ds, r)"
      using lexInteger_digits [of ?ds r] s zeros stops_not_digit [OF r] by simp
    moreover have "int (length ?ds) = n" using whole by simp
    ultimately show ?thesis
      using lexFraction_none [OF r] lexExponent_none [OF r] dec [of 0 "nat (n - ?k)"] by (simp add: shape)
  next
    case pointed
    have shape: "digitsText s n = take (nat n) s @ CHR ''.'' # drop (nat n) s"
      using pointed s(2) by (simp add: digitsText_def)
    have ne: "take (nat n) s \<noteq> []" "drop (nat n) s \<noteq> []" using pointed s(2) by auto
    have "lexInteger (digitsText s n @ r) = Some (take (nat n) s, CHR ''.'' # drop (nat n) s @ r)"
      using lexInteger_digits [OF part(1) ne(1) htake [OF ne(1)] dot] by (simp add: shape)
    moreover have "lexFraction (CHR ''.'' # drop (nat n) s @ r) = Some (drop (nat n) s, r)"
      by (rule lexFraction_digits [OF part(2) ne(2) stops_not_digit [OF r]])
    moreover have "int (length (take (nat n) s)) = n" using pointed by simp
    ultimately show ?thesis using lexExponent_none [OF r] dec [of 0 0 n] by simp
  next
    case small
    let ?z = "replicate (nat (- n)) CHR ''0''"
    have "\<not> ?k \<le> n" using small s(2) by (cases s) auto
    then have shape: "digitsText s n = CHR ''0'' # CHR ''.'' # ?z @ s"
      using small s(2) by (simp add: digitsText_def)
    have "lexInteger (digitsText s n @ r) = Some (''0'', CHR ''.'' # (?z @ s) @ r)"
      by (simp add: shape lexInteger_def startsWith_def)
    moreover have "lexFraction (CHR ''.'' # (?z @ s) @ r) = Some (?z @ s, r)"
      by (rule lexFraction_digits) (use s zeros stops_not_digit [OF r] in auto)
    moreover have "decimal neg (''0'' @ ?z @ s) (1 + 0) = Finite neg s n"
      using dec [of "Suc (nat (- n))" 0 1] small by simp
    ultimately show ?thesis using lexExponent_none [OF r] by auto
  next
    case one
    have "\<not> (?k \<le> n \<and> n \<le> 21)" "\<not> (0 < n \<and> n \<le> 21)" "\<not> (- 6 < n \<and> n \<le> 0)" using one by auto
    note off = this
    have shape: "digitsText s n = s @ exponentText (n - 1)"
      unfolding digitsText_def Let_def using one(1) s(2) off by (simp only: if_True if_False simp_thms append.simps)
    have "lexInteger (digitsText s n @ r) = Some (s, exponentText (n - 1) @ r)"
      using lexInteger_digits [OF s(1-3) exp] by (simp add: shape)
    moreover have "lexFraction (exponentText (n - 1) @ r) = Some ([], exponentText (n - 1) @ r)"
      by (simp add: lexFraction_def exponentText_def startsWith_def)
    moreover have "int (length s) + (n - 1) = n" using one by simp
    ultimately show ?thesis using lexExponent_text [OF r, of "n - 1"] dec [of 0 0 n] by simp
  next
    case many
    have "\<not> (?k \<le> n \<and> n \<le> 21)" "\<not> (0 < n \<and> n \<le> 21)" "\<not> (- 6 < n \<and> n \<le> 0)" using many by auto
    note off = this
    have shape: "digitsText s n = take 1 s @ CHR ''.'' # drop 1 s @ exponentText (n - 1)"
      unfolding digitsText_def Let_def using many(1) s(2) off by (simp only: if_True if_False simp_thms append.simps)
    have "length s \<noteq> 1" "0 < length s" using many s(2) by auto
    then have len: "1 < length s" by linarith
    then have ne: "take 1 s \<noteq> []" "drop 1 s \<noteq> []" by auto
    have "lexInteger (digitsText s n @ r) = Some (take 1 s, CHR ''.'' # drop 1 s @ exponentText (n - 1) @ r)"
      using lexInteger_digits [OF part(1) ne(1) htake [OF ne(1)] dot] by (simp only: shape append_Cons append_assoc)
    moreover have "lexFraction (CHR ''.'' # drop 1 s @ exponentText (n - 1) @ r) = Some (drop 1 s, exponentText (n - 1) @ r)"
      by (rule lexFraction_digits [OF part(2) ne(2) exp])
    moreover have "int (length (take 1 s)) + (n - 1) = n" using len by simp
    moreover have "take 1 s @ drop 1 s = s" by (rule append_take_drop_id)
    ultimately show ?thesis using lexExponent_text [OF r, of "n - 1"] dec [of 0 0 n] by (simp del: One_nat_def)
  qed
qed

lemma lexNumber_text:
  assumes "canonicalNumber x" and r: "stops r"
  shows "lexNumber (numberText x @ r) = Some (x, r)"
proof (cases x)
  case (Finite neg s n)
  show ?thesis
  proof (cases "s = []")
    case True
    with assms(1) Finite have "\<not> neg" "n = 0" by (simp_all add: canonicalNumber_def)
    then show ?thesis
      using True Finite lexFraction_none [OF r] lexExponent_none [OF r]
      by (simp add: digitsText_def lexNumber_def lexInteger_def startsWith_def decimal_zero)
  next
    case False
    with assms(1) Finite have s: "list_all isDigit s" "s \<noteq> []" "hd s \<noteq> CHR ''0''" "last s \<noteq> CHR ''0''"
      by (simp_all add: canonicalNumber_def)
    obtain ip s1 fp s2 e where l: "lexInteger (digitsText s n @ r) = Some (ip, s1)"
      "lexFraction s1 = Some (fp, s2)" "lexExponent s2 = Some (e, r)"
      "decimal neg (ip @ fp) (int (length ip) + e) = Finite neg s n"
      using lexDigits [OF s r] by blast
    have "\<not> startsWith (digitsText s n @ r) ''-''"
    proof
      assume "startsWith (digitsText s n @ r) ''-''"
      then obtain t where t: "digitsText s n @ r = CHR ''-'' # t" by (auto simp: startsWith_iff)
      then have "lexInteger (digitsText s n @ r) = None" by (simp add: lexInteger_def startsWith_def)
      with l(1) show False by simp
    qed
    then show ?thesis
      using l Finite False by (cases neg) (simp_all add: lexNumber_def startsWith_def)
  qed
qed (use assms(1) in \<open>simp_all add: canonicalNumber_def\<close>)

section \<open>Reading a string back\<close>

definition itemOf :: "char \<Rightarrow> str_item" where
  "itemOf c =
     (let n = (of_char c :: nat) in if n < 32 \<and> n \<notin> {8, 9, 10, 12, 13} then Unit n else Raw c)"

lemma itemOf_text: "itemsText (map itemOf s) = s"
proof (induction s)
  case (Cons c s)
  have low: "itemsText (Unit h # js) = utf8Encode h @ itemsText js" if "h < 32" for h js
    using that by (cases "Unit h # js" rule: itemsText.cases)
      (auto simp: highSurrogate_def lowSurrogate_def unitText_def)
  show ?case
  proof (cases "itemOf c")
    case (Unit n)
    then have n: "n = of_char c" "n < 32" by (auto simp: itemOf_def Let_def split: if_splits)
    then have "utf8Encode n = [c]" by (simp add: utf8Encode_def)
    with Cons Unit n(2) low show ?thesis by simp
  next
    case (Raw d)
    then have "d = c" by (auto simp: itemOf_def Let_def split: if_splits)
    with Cons Raw show ?thesis by simp
  qed
qed simp

lemma charI: "(of_char c :: nat) = of_char d \<Longrightarrow> c = d"
  by simp

lemma quoteChar_cases:
  obtains (escaped) x where "quoteChar c = [CHR 0x5C, x]" "x \<noteq> CHR ''u''" "simpleEscape x = Some c" "itemOf c = Raw c"
  | (control) "quoteChar c = [CHR 0x5C, CHR ''u'', CHR ''0'', CHR ''0'', hexLower (of_char c div 16),
        hexLower (of_char c mod 16)]" "(of_char c :: nat) < 32" "itemOf c = Unit (of_char c)"
  | (plain) "quoteChar c = [c]" "c \<noteq> CHR 0x22" "c \<noteq> CHR 0x5C" "\<not> (of_char c :: nat) < 32" "itemOf c = Raw c"
proof -
  let ?n = "of_char c :: nat"
  consider "?n = 8" | "?n = 9" | "?n = 10" | "?n = 12" | "?n = 13" | "?n = 34" | "?n = 92"
    | "?n < 32" "?n \<notin> {8, 9, 10, 12, 13, 34, 92}" | "\<not> ?n < 32" "?n \<noteq> 34" "?n \<noteq> 92" by force
  then show ?thesis
  proof cases
    case 1 then have "c = CHR 0x08" by (intro charI) simp
    then show ?thesis using escaped [of "CHR ''b''"] by (simp add: quoteChar_def simpleEscape_def itemOf_def Let_def)
  next
    case 2 then have "c = CHR 0x09" by (intro charI) simp
    then show ?thesis using escaped [of "CHR ''t''"] by (simp add: quoteChar_def simpleEscape_def itemOf_def Let_def)
  next
    case 3 then have "c = CHR 0x0A" by (intro charI) simp
    then show ?thesis using escaped [of "CHR ''n''"] by (simp add: quoteChar_def simpleEscape_def itemOf_def Let_def)
  next
    case 4 then have "c = CHR 0x0C" by (intro charI) simp
    then show ?thesis using escaped [of "CHR ''f''"] by (simp add: quoteChar_def simpleEscape_def itemOf_def Let_def)
  next
    case 5 then have "c = CHR 0x0D" by (intro charI) simp
    then show ?thesis using escaped [of "CHR ''r''"] by (simp add: quoteChar_def simpleEscape_def itemOf_def Let_def)
  next
    case 6 then have "c = CHR 0x22" by (intro charI) simp
    then show ?thesis using escaped [of "CHR 0x22"] by (simp add: quoteChar_def simpleEscape_def itemOf_def Let_def)
  next
    case 7 then have "c = CHR 0x5C" by (intro charI) simp
    then show ?thesis using escaped [of "CHR 0x5C"] by (simp add: quoteChar_def simpleEscape_def itemOf_def Let_def)
  next
    case 8
    then show ?thesis using control by (simp add: quoteChar_def itemOf_def Let_def)
  next
    case 9
    then have "c \<noteq> CHR 0x22" "c \<noteq> CHR 0x5C" by auto
    with 9 show ?thesis using plain by (simp add: quoteChar_def itemOf_def Let_def)
  qed
qed

lemma hexLower_facts:
  assumes "d < 16"
  shows "isHex (hexLower d)" "hexValue (hexLower d) = d"
proof -
  have "\<forall>d \<in> {0, 1, 2, 3, 4, 5, 6, 7, 8, 9, 10, 11, 12, 13, 14, 15}. isHex (hexLower d) \<and> hexValue (hexLower d) = d"
    by (simp add: hexLower_def isHex_def hexValue_def)
  from bspec [OF this below_16 [OF assms]] show "isHex (hexLower d)" "hexValue (hexLower d) = d" by simp_all
qed

lemma lexString_text:
  "lexString (concat (map quoteChar s) @ CHR 0x22 # r) = Some (map itemOf s, r)"
proof (induction s)
  case (Cons c s)
  show ?case
  proof (cases c rule: quoteChar_cases)
    case (escaped x)
    with Cons show ?thesis by simp
  next
    case control
    have "isHex CHR ''0''" "hexValue CHR ''0'' = 0" by (simp_all add: isHex_def hexValue_def)
    moreover have "16 * (of_char c div 16) + of_char c mod 16 = (of_char c :: nat)" by simp
    ultimately show ?thesis
      using Cons control hexLower_facts [OF of_char_nibbles(1) [of c]] hexLower_facts [OF of_char_nibbles(2) [of c]]
      by simp
  next
    case plain
    with Cons show ?thesis by simp
  qed
qed simp

section \<open>Reading a value back as its tokens\<close>

declare lexAll.simps(2) [simp del]

lemma lexAll_token:
  assumes "lexToken (c # s) = Some (tok, r)" and "\<not> isJsonSpace c"
  shows "lexAll (c # s) = map_option (Cons tok) (lexAll r)"
  using assms by (simp add: lexAll.simps)

lemma lexAll_punctuation [simp]:
  "lexAll (CHR ''['' # r) = map_option (Cons TOpenArray) (lexAll r)"
  "lexAll (CHR '']'' # r) = map_option (Cons TCloseArray) (lexAll r)"
  "lexAll (CHR ''{'' # r) = map_option (Cons TOpenObject) (lexAll r)"
  "lexAll (CHR ''}'' # r) = map_option (Cons TCloseObject) (lexAll r)"
  "lexAll (CHR '','' # r) = map_option (Cons TComma) (lexAll r)"
  "lexAll (CHR '':'' # r) = map_option (Cons TColon) (lexAll r)"
  by (simp_all add: lexAll.simps lexToken_def punctuation_def isJsonSpace_def)

lemma lexAll_string: "lexAll (quoteJSON s @ r) = map_option (Cons (TString s)) (lexAll r)"
proof -
  have "lexToken (quoteJSON s @ r) = Some (TString s, r)"
    using lexString_text [of s r] by (simp add: quoteJSON_def lexToken_def punctuation_def itemOf_text)
  then show ?thesis by (simp add: lexAll.simps quoteJSON_def isJsonSpace_def)
qed

lemma lexAll_keyword:
  "lexAll (''null'' @ r) = map_option (Cons TNull) (lexAll r)"
  "lexAll (''true'' @ r) = map_option (Cons TTrue) (lexAll r)"
  "lexAll (''false'' @ r) = map_option (Cons TFalse) (lexAll r)"
  by (simp_all add: lexAll.simps lexToken_def punctuation_def isJsonSpace_def keyword_def startsWith_def isDigit_def)

lemma lexNumber_start:
  assumes "lexNumber s = Some (x, r)"
  obtains c t where "s = c # t" "c = CHR ''-'' \<or> isDigit c"
proof (cases s)
  case Nil
  with assms show ?thesis by (simp add: lexNumber_def lexInteger_def startsWith_def)
next
  case (Cons c t)
  have "c = CHR ''-'' \<or> isDigit c"
    using assms Cons by (auto simp: lexNumber_def lexInteger_def startsWith_def Let_def
        split: option.splits if_splits)
  with Cons that show ?thesis by blast
qed

lemma lexAll_number:
  assumes "canonicalNumber x" and "stops r"
  shows "lexAll (numberText x @ r) = map_option (Cons (TNumber x)) (lexAll r)"
proof -
  note n = lexNumber_text [OF assms]
  obtain c t where c: "numberText x @ r = c # t" "c = CHR ''-'' \<or> isDigit c" by (rule lexNumber_start [OF n])
  have d: "48 \<le> (of_char c :: nat) \<and> (of_char c :: nat) \<le> 57 \<or> c = CHR ''-''"
    using c(2) by (auto simp: isDigit_def Let_def)
  have "punctuation c = None" "c \<noteq> CHR 0x22" "\<not> isJsonSpace c"
    using d by (auto simp: punctuation_def isJsonSpace_def)
  then have "lexToken (c # t) = Some (TNumber x, r)" "\<not> isJsonSpace c"
    using n c by (simp_all add: lexToken_def)
  from lexAll_token [OF this] show ?thesis by (simp only: c(1))
qed

lemma map_option_Nil: "map_option ((@) []) x = x"
  by (cases x) simp_all

lemma plain_text:
  "plainJSON nearest v \<Longrightarrow> \<exists>t. jsonText v = Inr (Some t) \<and>
     (\<forall>r. stops r \<longrightarrow> lexAll (t @ r) = map_option ((@) (tokensOf v)) (lexAll r))"
  "plainElems nearest vs \<Longrightarrow> \<exists>ts. jsonElems vs = Inr ts \<and> (ts = [] \<longleftrightarrow> vs = []) \<and>
     (\<forall>r. stops r \<longrightarrow> lexAll (join '','' ts @ r) = map_option ((@) (elemTokens vs)) (lexAll r))"
  "plainProps nearest ps \<Longrightarrow> \<exists>ts. jsonProps ps = Inr ts \<and> (ts = [] \<longleftrightarrow> ps = []) \<and>
     (\<forall>r. stops r \<longrightarrow> lexAll (join '','' ts @ r) = map_option ((@) (propTokens ps)) (lexAll r))"
proof (induction v and vs and ps rule: jsonText_jsonElems_jsonProps.induct)
  case (4)
  then show ?case using lexAll_keyword by simp
next
  case (5 b)
  then show ?case using lexAll_keyword by simp
next
  case (6 x)
  then have "canonicalNumber x" by simp
  then show ?case using lexAll_number by (cases x) (simp_all add: canonicalNumber_def del: numberText.simps)
next
  case (8 s)
  then show ?case using lexAll_string by simp
next
  case (12 vs)
  then obtain ts where ts: "jsonElems vs = Inr ts"
    "\<And>r. stops r \<Longrightarrow> lexAll (join '','' ts @ r) = map_option ((@) (elemTokens vs)) (lexAll r)" by auto
  then show ?case by (simp add: option.map_comp comp_def)
next
  case (13 ps it ait)
  then obtain ts where ts: "jsonProps ps = Inr ts"
    "\<And>r. stops r \<Longrightarrow> lexAll (join '','' ts @ r) = map_option ((@) (propTokens ps)) (lexAll r)" by auto
  then show ?case by (simp add: option.map_comp comp_def)
next
  case (15 v vs)
  then have p: "plainJSON nearest v" "plainElems nearest vs" by simp_all
  from "15.IH"(1) [OF p(1)] obtain t where t: "jsonText v = Inr (Some t)"
    "\<And>r. stops r \<Longrightarrow> lexAll (t @ r) = map_option ((@) (tokensOf v)) (lexAll r)" by blast
  from "15.IH"(2) [OF t(1) p(2)] obtain ts where ts: "jsonElems vs = Inr ts" "ts = [] \<longleftrightarrow> vs = []"
    "\<And>r. stops r \<Longrightarrow> lexAll (join '','' ts @ r) = map_option ((@) (elemTokens vs)) (lexAll r)" by blast
  show ?case
  proof (cases "vs = []")
    case True
    with t ts show ?thesis by simp
  next
    case False
    with t ts show ?thesis by (simp add: join_Cons option.map_comp comp_def)
  qed
next
  case (17 k v ps)
  then have p: "plainJSON nearest v" "plainProps nearest ps" by simp_all
  from "17.IH"(1) [OF p(1)] obtain t where t: "jsonText v = Inr (Some t)"
    "\<And>r. stops r \<Longrightarrow> lexAll (t @ r) = map_option ((@) (tokensOf v)) (lexAll r)" by blast
  from "17.IH"(2) [OF t(1) p(2)] obtain ts where ts: "jsonProps ps = Inr ts" "ts = [] \<longleftrightarrow> ps = []"
    "\<And>r. stops r \<Longrightarrow> lexAll (join '','' ts @ r) = map_option ((@) (propTokens ps)) (lexAll r)" by blast
  show ?case
  proof (cases "ps = []")
    case True
    with t ts show ?thesis by (simp add: lexAll_string option.map_comp comp_def)
  next
    case False
    with t ts show ?thesis by (simp add: join_Cons lexAll_string option.map_comp comp_def)
  qed
qed (simp_all add: map_option_Nil)

section \<open>Building the value from its tokens\<close>

lemma mapSet_new: "k \<notin> fst ` set ps \<Longrightarrow> mapSet k v ps = ps @ [(k, v)]"
  by (induction ps) auto

text \<open>Going on with the result of a step.\<close>

definition feed ::
    "(jsnum \<Rightarrow> jsnum) \<Rightarrow> token list \<Rightarrow> (expects \<times> frame list) option \<Rightarrow> (expects \<times> frame list) option" where
  "feed nearest toks x = (case x of None \<Rightarrow> None | Some y \<Rightarrow> parseTokens nearest toks y)"

lemma feed_simps [simp]: "feed nearest toks (Some y) = parseTokens nearest toks y" "feed nearest toks None = None"
  by (simp_all add: feed_def)

lemma parseTokens_Cons: "parseTokens nearest (tok # toks) x = feed nearest toks (parseStep nearest tok x)"
  by (simp add: feed_def)

declare parseTokens.simps(2) [simp del]

lemma machine_value:
  "plainJSON nearest v \<Longrightarrow>
     parseTokens nearest (tokensOf v @ toks) (Value fresh, st) = feed nearest toks (deliver v st)"
  "plainElems nearest vs \<Longrightarrow> vs \<noteq> [] \<Longrightarrow>
     parseTokens nearest (elemTokens vs @ toks) (Value fresh, InArray ws # st)
       = parseTokens nearest toks (After, InArray (ws @ vs) # st)"
  "plainProps nearest ps \<Longrightarrow> ps \<noteq> [] \<Longrightarrow> distinct (map fst (qs @ ps)) \<Longrightarrow>
     parseTokens nearest (propTokens ps @ toks) (Name fresh, InObject qs # st)
       = parseTokens nearest toks (After, InObject (qs @ ps) # st)"
proof (induction v and vs and ps arbitrary: toks fresh st and toks fresh ws st and toks fresh qs st
    rule: tokensOf_elemTokens_propTokens.induct)
  case (2 b)
  show ?case by (cases b) (simp_all add: parseTokens_Cons scalar_def)
next
  case (5 vs)
  show ?case
  proof (cases "vs = []")
    case True
    then show ?thesis by (simp add: parseTokens_Cons closeFrame_def)
  next
    case False
    with 5 show ?thesis by (simp add: parseTokens_Cons closeFrame_def)
  qed
next
  case (6 ps it ait)
  show ?case
  proof (cases "ps = []")
    case True
    with 6 show ?thesis by (simp add: parseTokens_Cons closeFrame_def)
  next
    case False
    with 6 show ?thesis by (simp add: parseTokens_Cons closeFrame_def)
  qed
next
  case (9 v vs)
  then show ?case by (cases "vs = []") (simp_all add: parseTokens_Cons deliver_def)
next
  case (11 k v ps)
  then show ?case
    by (cases "ps = []") (simp_all add: parseTokens_Cons deliver_def mapSet_new)
qed (simp_all add: parseTokens_Cons scalar_def deliver_def)

section \<open>The round trip\<close>

lemma jsonParse_text:
  assumes "plainJSON nearest v"
  shows "\<exists>t. jsonText v = Inr (Some t) \<and> jsonParse nearest t = Some v"
proof -
  obtain t where t: "jsonText v = Inr (Some t)"
    "\<And>r. stops r \<Longrightarrow> lexAll (t @ r) = map_option ((@) (tokensOf v)) (lexAll r)"
    using plain_text(1) [OF assms] by blast
  have "lexAll t = Some (tokensOf v)" using t(2) [of "[]"] by simp
  moreover have "parseTokens nearest (tokensOf v) (Value False, []) = Some (Complete v, [])"
    using machine_value(1) [OF assms, of "[]" False "[]"] by (simp add: deliver_def)
  ultimately show ?thesis using t(1) by (simp add: jsonParse_def)
qed

section \<open>The text of a value is well formed\<close>

lemma takeConts_more:
  "takeConts k lo hi bs = (True, t, r) \<Longrightarrow> takeConts k lo hi (bs @ cs) = (True, t, r @ cs)"
  by (induction k lo hi bs arbitrary: t r rule: takeConts.induct) (auto split: if_splits prod.splits)

lemma takeConts_range:
  "takeConts k lo hi bs = (ok, t, r) \<Longrightarrow> 0x80 \<le> lo \<Longrightarrow> \<forall>b \<in> set t. 0x80 \<le> b"
  by (induction k lo hi bs arbitrary: ok t r rule: takeConts.induct) (fastforce split: if_splits prod.splits)+

lemma leadByte_range: "leadByte b = Some (n, lo, hi) \<Longrightarrow> 0x80 \<le> lo"
  by (auto simp: leadByte_def split: if_splits)

lemma utf8Valid_append: "utf8Valid as \<Longrightarrow> utf8Valid bs \<Longrightarrow> utf8Valid (as @ bs)"
proof (induction "as" rule: utf8Valid.induct)
  case (2 b cs)
  show ?case
  proof (cases "b < 0x80")
    case True
    with 2 show ?thesis by simp
  next
    case False
    with "2.prems"(1) obtain n lo hi t r where
      lead: "leadByte b = Some (n, lo, hi)" and conts: "takeConts n lo hi cs = (True, t, r)"
      and r: "utf8Valid r" by (auto split: option.splits prod.splits)
    from "2.IH"(2) [OF False lead refl refl conts [symmetric] refl r "2.prems"(2)] have "utf8Valid (r @ bs)" .
    with False lead takeConts_more [OF conts] show ?thesis by simp
  qed
qed simp

lemma wellFormed_append: "wellFormed s \<Longrightarrow> wellFormed t \<Longrightarrow> wellFormed (s @ t)"
  by (simp add: wellFormed_def utf8Valid_append)

lemma wellFormed_Cons: "(of_char c :: nat) < 128 \<Longrightarrow> wellFormed s \<Longrightarrow> wellFormed (c # s)"
  by (simp add: wellFormed_def)

lemma wellFormed_Nil [simp]: "wellFormed []"
  by (simp add: wellFormed_def)

lemma wellFormed_words [simp]: "wellFormed ''null''" "wellFormed ''true''" "wellFormed ''false''"
  by (simp_all add: wellFormed_def)

lemma wellFormed_join: "\<forall>t \<in> set ts. wellFormed t \<Longrightarrow> wellFormed (join '','' ts)"
  by (induction ts rule: induct_list012) (auto intro!: wellFormed_append wellFormed_Cons simp del: join.simps(3) simp: join_Cons)

lemma quoteChar_high: "\<not> (of_char c :: nat) < 128 \<Longrightarrow> quoteChar c = [c]"
  by (auto simp: quoteChar_def Let_def)

lemma quoteChar_low:
  assumes "(of_char c :: nat) < 128" and "d \<in> set (quoteChar c)"
  shows "(of_char d :: nat) < 128"
proof (cases c rule: quoteChar_cases)
  case (escaped x)
  then have "x = c \<or> x \<in> {CHR ''b'', CHR ''f'', CHR ''n'', CHR ''r'', CHR ''t''}"
    by (auto simp: simpleEscape_def split: if_splits dest: map_of_SomeD)
  with assms escaped show ?thesis by auto
next
  case control
  have "\<forall>d \<in> {0, 1, 2, 3, 4, 5, 6, 7, 8, 9, 10, 11, 12, 13, 14, 15}. (of_char (hexLower d) :: nat) < 128"
    by (simp add: hexLower_def)
  then have "(of_char (hexLower e) :: nat) < 128" if "e < 16" for e using below_16 [OF that] by blast
  with assms control of_char_nibbles [of c] show ?thesis by auto
next
  case plain
  with assms show ?thesis by simp
qed

lemma map_of_char_id: "\<forall>b \<in> set bs. (b :: nat) < 256 \<Longrightarrow> map (of_char \<circ> char_of) bs = bs"
  by (induction bs) simp_all

lemma quote_valid:
  assumes "utf8Valid bs" and "\<forall>b \<in> set bs. b < 256"
  shows "utf8Valid (map of_char (concat (map (\<lambda>b. quoteChar (char_of b)) bs)))"
  using assms
proof (induction bs rule: utf8Valid.induct)
  case (2 b bs)
  let ?q = "\<lambda>bs. map of_char (concat (map (\<lambda>b. quoteChar (char_of b)) bs)) :: nat list"
  have b: "of_char (char_of b :: char) = b" using "2.prems"(2) by simp
  show ?case
  proof (cases "b < 0x80")
    case True
    have "wellFormed (quoteChar (char_of b))"
      by (rule ascii_wellFormed) (use quoteChar_low [of "char_of b"] True b in auto)
    moreover have "utf8Valid (?q bs)" using "2.IH"(1) [OF True] "2.prems" True by (simp add: comp_def)
    ultimately show ?thesis using utf8Valid_append by (simp add: wellFormed_def comp_def)
  next
    case False
    with "2.prems"(1) obtain n lo hi t r where
      lead: "leadByte b = Some (n, lo, hi)" and conts: "takeConts n lo hi bs = (True, t, r)"
      and r: "utf8Valid r" by (auto split: option.splits prod.splits)
    have bs: "bs = t @ r" by (rule takeConts_split [OF conts])
    have t: "\<forall>c \<in> set t. 0x80 \<le> c" by (rule takeConts_range [OF conts leadByte_range [OF lead]])
    have t256: "\<forall>c \<in> set t. c < 256" using "2.prems"(2) bs by simp
    have "\<forall>c \<in> set t. quoteChar (char_of c) = [char_of c]"
      using t t256 by (auto intro!: quoteChar_high)
    then have "concat (map (\<lambda>b. quoteChar (char_of b)) t) = map char_of t" by (induction t) simp_all
    then have qt: "?q t = t" using map_of_char_id [OF t256] by simp
    have "?q (b # bs) = b # t @ ?q r"
      using quoteChar_high [of "char_of b"] False b qt by (simp add: bs)
    moreover have "utf8Valid (?q r)"
      using "2.IH"(2) [OF False lead refl refl conts [symmetric] refl r] "2.prems"(2) bs by (simp add: comp_def)
    ultimately show ?thesis using False lead takeConts_complete [OF conts, of "?q r"] by simp
  qed
qed simp

lemma wellFormed_quote: "wellFormed s \<Longrightarrow> wellFormed (quoteJSON s)"
proof -
  assume "wellFormed s"
  then have "utf8Valid (map of_char (concat (map (\<lambda>b. quoteChar (char_of b)) (map of_char s :: nat list))))"
    by (intro quote_valid) (auto simp: wellFormed_def of_char_lt)
  then have "wellFormed (concat (map quoteChar s))"
    by (simp add: wellFormed_def comp_def)
  then show ?thesis by (auto simp: quoteJSON_def intro!: wellFormed_Cons wellFormed_append)
qed

lemma digit_ascii: "isDigit c \<Longrightarrow> (of_char c :: nat) < 128"
  by (simp add: isDigit_def Let_def)

lemma numberText_ascii: "canonicalNumber x \<Longrightarrow> c \<in> set (numberText x) \<Longrightarrow> (of_char c :: nat) < 128"
  using showNat_digits digit_ascii
  by (cases x) (auto simp: canonicalNumber_def digitsText_def exponentText_def list_all_iff Let_def
      split: if_splits dest: in_set_takeD in_set_dropD)

lemma plain_wellFormed:
  "plainJSON nearest v \<Longrightarrow> jsonText v = Inr (Some t) \<Longrightarrow> wellFormed t"
  "plainElems nearest vs \<Longrightarrow> jsonElems vs = Inr ts \<Longrightarrow> \<forall>t \<in> set ts. wellFormed t"
  "plainProps nearest ps \<Longrightarrow> jsonProps ps = Inr ts \<Longrightarrow> \<forall>t \<in> set ts. wellFormed t"
proof (induction v and vs and ps arbitrary: t and ts and ts rule: jsonText_jsonElems_jsonProps.induct)
  case (6 x)
  then show ?case
    by (cases x) (auto simp del: numberText.simps simp: canonicalNumber_def
        intro!: ascii_wellFormed dest!: numberText_ascii [rotated])
next
  case (8 s)
  then show ?case using wellFormed_quote by auto
next
  case (12 vs)
  then show ?case by (auto split: sum.splits intro!: wellFormed_Cons wellFormed_append wellFormed_join)
next
  case (13 ps it ait)
  then show ?case by (auto split: sum.splits intro!: wellFormed_Cons wellFormed_append wellFormed_join)
next
  case (15 v vs)
  then show ?case by (auto split: sum.splits option.splits intro: ascii_wellFormed)
next
  case (17 k v ps)
  then show ?case by (auto split: sum.splits option.splits intro!: wellFormed_append wellFormed_Cons wellFormed_quote)
qed (auto intro: ascii_wellFormed)

end
