(* ===== verification/Rt_Calls.thy ===== *)
theory Rt_Calls
  imports Rt_Invoke Rt_Refresh Rt_JsonText
begin

text \<open>
  What an invocation guarantees: it runs the code of the last refresh, the module cache and its
  versioned URLs are invisible, a name may lead out of the functions directory, and how the
  result of a handler becomes chunks of bytes.
\<close>

section \<open>Code\<close>

text \<open>
  C4. After a successful refresh, and whatever functions are loaded in the meantime, invoking a
  function runs the handler of the file the clone holds for it, and a function the clone does
  not hold is not found.
\<close>

theorem refresh_serves_clone:
  assumes "installed pf" and "fsInv (files s)" and "loaderInv s"
    and "syncRuntimeFunctionsDir pf cfg (repoFunctionsPath cfg) s = (Inr u, t)"
    and "functionName name"
  shows "fst (invokeModule pf name r payload q (fold (\<lambda>n s. snd (loadModule pf n s)) ns t)) =
    (case fsStat (files s) (pathKey (repoFunctionsPath cfg) @ [name @ ''.ts'']) of
       Some (File b) \<Rightarrow>
         (case evalModule pf b of Inl e \<Rightarrow> Fail e | Inr m \<Rightarrow> runHandler name m payload q)
     | _ \<Rightarrow> Fail (notFoundError pf name))"
proof -
  note sv = sync_serves [OF assms(1-4)]
  let ?w = "fold (\<lambda>n s. snd (loadModule pf n s)) ns t"
  have w: "fst (loadModule pf name ?w) = loadUncached pf (files t) name"
    using cached.loads_then_load [OF sv(1), of ns name] by blast
  have "fst (invokeModule pf name r payload q ?w) =
      (case loadUncached pf (files t) name of Inl e \<Rightarrow> Fail e | Inr m \<Rightarrow> runHandler name m payload q)"
    using w by (auto simp: invokeModule_def split: prod.splits sum.splits)
  then show ?thesis
    using sv(3) [OF assms(5)] by (auto split: option.splits node.splits sum.splits)
qed

theorem refresh_serves_clone_witness:
  "\<exists>t. syncRuntimeFunctionsDir demoPlatform demoSettings (repoFunctionsPath demoSettings) demoState = (Inr (), t)
    \<and> fst (invokeModule demoPlatform ''hello'' [] [] None t) = runHandler ''hello'' (demoModule [104, 105]) [] None
    \<and> fst (invokeModule demoPlatform ''old'' [] [] None t) = Fail (notFoundError demoPlatform ''old'')"
proof -
  obtain t where t: "syncRuntimeFunctionsDir demoPlatform demoSettings (repoFunctionsPath demoSettings) demoState
      = (Inr (), t)" using demo_sync_ok by blast
  have s: "fsInv (files demoState)" "loaderInv demoState" by (simp_all add: demo_fsInv loaderInv_def)
  have names: "functionName ''hello''" "functionName ''old''" by (simp_all add: functionName_def nameChar_def)
  have src: "fsStat demoFiles (pathKey (repoFunctionsPath demoSettings) @ [''hello.ts'']) = Some (File [104, 105])"
    "fsStat demoFiles (pathKey (repoFunctionsPath demoSettings) @ [''old.ts'']) = None"
    by (simp_all add: demo_repoFunctions_key) (simp_all add: demoFiles_def fsStat_def mapGet_def)
  have ev: "evalModule demoPlatform b = Inr (demoModule b)" for b by (simp add: demoPlatform_def)
  note serves = refresh_serves_clone [OF demo_installed s t, where ns = "[]" and r = "[]" and payload = "[]" and q = None]
  from t serves [OF names(1)] serves [OF names(2)] src ev show ?thesis by simp
qed

text \<open>
  C6. The module cache is invisible: in a state whose cache is fresh, any sequence of loads,
  successful or not, gives each time exactly what loading without any cache would give.
\<close>

theorem cached_loads_equal_uncached:
  assumes "loaderFresh pf s"
  shows "fst (loadModule pf name (fold (\<lambda>n s. snd (loadModule pf n s)) ns s)) = loadUncached pf (files s) name"
  using cached.loads_then_load [OF assms] by blast

theorem cached_loads_equal_uncached_witness:
  "fst (loadModule demoPlatform ''old'' (snd (loadModule demoPlatform ''hello'' demoState)))
     = loadUncached demoPlatform demoFiles ''old''"
  using cached_loads_equal_uncached [of demoPlatform demoState "''old''" "[''hello'']"]
  by (simp add: loaderFresh_def)

text \<open>
  C24. Clearing the cache makes the loader forget: after a successful refresh no URL it will ask
  for has an outcome in the platform's table, although the table is never cleared.
\<close>

theorem refreshed_urls_are_new:
  assumes "installed pf" and "fsInv (files s)" and "loaderInv s"
    and "syncRuntimeFunctionsDir pf cfg (repoFunctionsPath cfg) s = (Inr u, t)"
  shows "importTable t = importTable s \<and> mapGet (importTable t) (importURL p (moduleVersion t)) = None"
proof -
  have t: "importTable t = importTable s" "moduleVersion t = Suc (moduleVersion s)"
    using sync_Inr(4) [OF assms(1,2) repoFunctionsPath_key(1) source_neq_runtime [OF assms(1)] assms(4)] by simp_all
  with assms(3) show ?thesis by (auto simp: loaderInv_def importURL_inject intro: classical)
qed

theorem refreshed_urls_are_new_witness:
  "\<exists>t. syncRuntimeFunctionsDir demoPlatform demoSettings (repoFunctionsPath demoSettings)
        (demoState\<lparr>importTable := [(importURL ''/app/pkg/functions/old.ts'' 1, Inr (demoModule [120]))]\<rparr>) = (Inr (), t)
    \<and> importTable t = [(importURL ''/app/pkg/functions/old.ts'' 1, Inr (demoModule [120]))]
    \<and> mapGet (importTable t) (importURL ''/app/pkg/functions/old.ts'' (moduleVersion t)) = None"
proof -
  let ?s = "demoState\<lparr>importTable := [(importURL ''/app/pkg/functions/old.ts'' 1, Inr (demoModule [120]))]\<rparr>"
  have s: "fsInv (files ?s)" "loaderInv ?s"
    by (simp add: demo_fsInv) (auto simp: loaderInv_def mapGet_def split: if_splits)
  have "dirReady (runtimeFunctionsPath demoPlatform) (repoFunctionsPath demoSettings) ?s"
    using demo_ready by (simp add: dirReady_def)
  from sync_total [OF demo_installed this demo_apart, of demoSettings]
  have "\<exists>t. syncRuntimeFunctionsDir demoPlatform demoSettings (repoFunctionsPath demoSettings) ?s = (Inr (), t)"
    using demo_no_dirs by (simp add: dirEntry_def)
  then obtain t where
    t: "syncRuntimeFunctionsDir demoPlatform demoSettings (repoFunctionsPath demoSettings) ?s = (Inr (), t)"
    by blast
  have "importTable ?s = [(importURL ''/app/pkg/functions/old.ts'' 1, Inr (demoModule [120]))]" by simp
  with refreshed_urls_are_new [OF demo_installed s t] t show ?thesis by metis
qed




section \<open>Results\<close>

text \<open>
  Every value of a handler becomes bytes, except one that reaches a \<^verbatim>\<open>BigInt\<close>, which throws
  the error of \<^verbatim>\<open>JSON.stringify\<close>.
\<close>

theorem asBytes_total:
  "(if reachesBigInt v then asBytes v = Inl bigIntError else (\<exists>b. asBytes v = Inr b))"
  using asBytes_fails [of v] asBytes_error [of v] by (cases "asBytes v") auto

text \<open>
  What an iterator yields is sent item by item, in order, up to the first item that has no
  bytes; the stream then ends with that item's error, and otherwise the way the iterator ended
  (finished, thrown, or never answering).
\<close>

theorem stream_prefix:
  "yields (yieldAll g) = map (projr \<circ> asBytes) (takeWhile (\<lambda>v. \<not> reachesBigInt v) (yields g))
    \<and> ending (yieldAll g) =
        (if \<exists>v \<in> set (yields g). reachesBigInt v then Some (Some bigIntError) else ending g)"
  using yieldAll_prefix yieldAll_ending by blast

text \<open>
  C30. A handler that returns a byte array does not send it: the array is iterated, and each byte
  is sent as a chunk of its own, holding the byte's value in decimal. An \<^verbatim>\<open>ArrayBuffer\<close> with
  the same bytes is sent as it is.
\<close>

theorem byte_array_is_iterated:
  "resultChunks (JUint8Array b) = genOfList (map (\<lambda>x. textEncode (showNat (unat x))) b)
    \<and> resultChunks (JArrayBuffer b) = Yield b Done"
  by (simp add: yieldAll_bytes)





end
