(* ===== verification/Rt_Contracts.thy ===== *)
theory Rt_Contracts
  imports Rt_Main Rt_Calls
begin

text \<open>
  What the consumers, the hook, the connection and the synchronous mode guarantee, each stated
  over the code's own definitions and applied to the example platform.
\<close>

section \<open>Example data\<close>

abbreviation demoProc :: proc_state where
  "demoProc \<equiv> initialState demoFiles"

lemma initialState_simps [simp]:
  "files (initialState fs) = fs" "console (initialState fs) = []" "spawned (initialState fs) = []"
  "modules (initialState fs) = []" "moduleVersion (initialState fs) = 1"
  "importTable (initialState fs) = []" "consumers (initialState fs) = []" "subs (initialState fs) = []"
  "nextSid (initialState fs) = 1" "published (initialState fs) = []"
  "listening (initialState fs) = None" "exitCode (initialState fs) = None"
  by (simp_all add: initialState_def)

lemma demo_serviceInv: "serviceInv demoSettings demoProc"
  by (rule initial_serviceInv [OF demo_fsInv])

lemma demo_invs: "fsInv (files demoProc)" "consumersInv demoSettings demoProc" "loaderInv demoProc"
  using demo_serviceInv by (simp_all add: serviceInv_def)

lemma initial_fresh: "loaderFresh pf (initialState fs)"
  by (simp add: loaderFresh_def)

lemma demo_nats [simp]:
  "natsSubscribe demoPlatform x = None" "natsPublish demoPlatform x b = None"
  "natsConnect demoPlatform u = None" "natsManager demoPlatform = None"
  "streamsAdd demoPlatform n xs = None" "bunServe demoPlatform p = None"
  by (simp_all add: demoPlatform_def)

lemma demo_functions: "functionName ''hello''" "functionName ''old''"
  by (simp_all add: functionName_def nameChar_def)

lemma demo_runtime_dir:
  assumes "files s = demoFiles"
  shows "fsStat (files s) (pathKey (runtimeFunctionsPath demoPlatform)) = Some Dir"
    "dirEntry (runtimeFunctionsPath demoPlatform) s ''old.ts'' = Some (File [120])"
    "dirEntry (runtimeFunctionsPath demoPlatform) s ''hello.ts'' = None"
  by (simp_all add: dirEntry_def demo_runtime_key assms)
    (simp_all add: demoFiles_def fsStat_def mapGet_def)

lemma demo_reconcile_ok: "\<exists>t. reconcileConsumers demoPlatform demoSettings demoProc = (Inr (), t)"
proof -
  obtain x t where r: "reconcileConsumers demoPlatform demoSettings demoProc = (x, t)"
    by (cases "reconcileConsumers demoPlatform demoSettings demoProc")
  show ?thesis
  proof (cases x)
    case (Inl e)
    from reconcile_error [OF demo_invs(1,2) r [unfolded Inl]]
    have "listFunctions demoPlatform demoProc = (Inl e, demoProc)" by simp
    with listFunctions_outcome [OF demo_invs(1), of demoPlatform] demo_runtime_dir(1) [of demoProc]
    show ?thesis by simp
  next
    case (Inr u)
    with r show ?thesis by (cases u) blast
  qed
qed

section \<open>Consumers\<close>

text \<open>
  C5. After a reconciliation that succeeds, every function on disk is listened for by exactly one
  subscription and no other name by any; a consumer that was already running keeps the
  subscription it had.
\<close>

theorem reconcile_exact:
  assumes "fsInv (files s)" and "consumersInv cfg s" and "reconcileConsumers pf cfg s = (Inr u, t)"
  shows "consumersInv cfg t
    \<and> (\<forall>n. liveOn t (execSubject cfg n) = (if onDisk pf s n then 1 else 0))
    \<and> (\<forall>n i. onDisk pf s n \<and> mapGet (consumers s) n = Some i \<longrightarrow> mapGet (consumers t) n = Some i)"
proof -
  note k = reconcile_keeps [OF assms]
  have "liveOn t (execSubject cfg n) = (if onDisk pf s n then 1 else 0)" for n
    using liveOn_exec [OF k(1), of n] k(5) [of n] by auto
  with k(1,4) show ?thesis by blast
qed

theorem reconcile_exact_witness:
  "\<exists>t. reconcileConsumers demoPlatform demoSettings demoProc = (Inr (), t)
    \<and> liveOn t (execSubject demoSettings ''old'') = 1 \<and> liveOn t (execSubject demoSettings ''hello'') = 0"
proof -
  obtain t where t: "reconcileConsumers demoPlatform demoSettings demoProc = (Inr (), t)"
    using demo_reconcile_ok by blast
  have "onDisk demoPlatform demoProc ''old''" "\<not> onDisk demoPlatform demoProc ''hello''"
    using demo_runtime_dir [of demoProc] demo_functions by (simp_all add: onDisk_def)
  with t reconcile_exact [OF demo_invs(1,2) t] show ?thesis by simp
qed

text \<open>
  C29. A reconciliation fails only if the functions cannot be listed or the connection refuses the
  subscription of a function on disk; the subscriptions and the table still agree then, and the
  consumers of functions on disk keep running.
\<close>

theorem reconcile_failure:
  assumes "fsInv (files s)" and "consumersInv cfg s" and "reconcileConsumers pf cfg s = (Inl e, t)"
  shows "(listFunctions pf s = (Inl e, s)
      \<or> (\<exists>n. onDisk pf s n \<and> natsSubscribe pf (execSubject cfg n) = Some e))
    \<and> consumersInv cfg t
    \<and> (\<forall>n i. onDisk pf s n \<and> mapGet (consumers s) n = Some i \<longrightarrow> mapGet (consumers t) n = Some i)"
  using reconcile_error [OF assms] reconcile_keeps [OF assms] by blast

theorem reconcile_failure_witness:
  "\<exists>e t. reconcileConsumers demoPlatform demoSettings
        (initialState [([''app''], Dir), ([''app'', ''pkg''], Dir), ([''app'', ''pkg'', ''functions''], File [])])
      = (Inl e, t) \<and> consumersInv demoSettings t"
proof -
  let ?fs = "[([''app''], Dir), ([''app'', ''pkg''], Dir), ([''app'', ''pkg'', ''functions''], File [])]"
  let ?s = "initialState ?fs"
  have inv: "fsInv (files ?s)" by (simp add: fsInv_def mapInv_def mapKeys_def fsStat_def mapGet_def)
  have c: "consumersInv demoSettings ?s"
    using initial_serviceInv [of ?fs demoSettings] inv by (simp add: serviceInv_def)
  have "fsStat (files ?s) (pathKey (runtimeFunctionsPath demoPlatform)) = Some (File [])"
    by (simp add: demo_runtime_key fsStat_def mapGet_def)
  then obtain e t where r: "reconcileConsumers demoPlatform demoSettings ?s = (Inl e, t)"
    by (simp add: reconcileConsumers_def listFunctions_def Let_def andThen_def fsExists_def fsReaddir_def)
  from reconcile_failure [OF inv c r] r show ?thesis by blast
qed

section \<open>Messages\<close>

text \<open>
  C18. A message on the request subject of a call is answered on the subject the caller of that
  call waits on, with the chunks of the function's output in order; the message loop goes on
  exactly if the invocation ends.
\<close>

theorem message_is_answered:
  assumes "loaderFresh pf s" and "acceptsAll pf" and "functionName name"
    and "CHR ''.'' \<notin> set (project cfg)" and "CHR ''.'' \<notin> set r"
    and "handleMessage pf cfg name (project cfg @ ''.'' @ name @ ''.exec.ts.'' @ r, data) s = (go, t)"
  shows "published t = published s
      @ map (Pair (project cfg @ ''.'' @ name @ ''.res.ts.'' @ r)) (yields (answer pf (files s) name data))
    \<and> go = (ending (answer pf (files s) name data) \<noteq> None)"
  using handleMessage_facts(1,2) [OF assms(1,2,6)] requestID_exec [OF assms(4,3,5)]
  by (simp add: replies_def answered_def resSubject_def)

theorem message_is_answered_witness:
  "\<exists>go t. handleMessage demoPlatform demoSettings ''old'' (''shop.old.exec.ts.r7'', []) demoProc = (go, t)
    \<and> published t = map (Pair ''shop.old.res.ts.r7'') (yields (answer demoPlatform demoFiles ''old'' []))"
proof -
  have p: "project demoSettings = ''shop''" by (simp add: demoSettings_def)
  obtain go t where h: "handleMessage demoPlatform demoSettings ''old''
      (project demoSettings @ ''.'' @ ''old'' @ ''.exec.ts.'' @ ''r7'', []) demoProc = (go, t)"
    by (cases "handleMessage demoPlatform demoSettings ''old''
      (project demoSettings @ ''.'' @ ''old'' @ ''.exec.ts.'' @ ''r7'', []) demoProc")
  have "acceptsAll demoPlatform" by (simp add: acceptsAll_def)
  from message_is_answered [OF initial_fresh this demo_functions(2) _ _ h] h show ?thesis by (simp add: p)
qed

text \<open>
  C38. With one dot in the project's name the parts of the subject shift: whatever the request,
  the reply goes to the request id \<^verbatim>\<open>ts\<close>, where no caller waits.
\<close>

theorem dotted_project_loses_replies:
  assumes "loaderFresh pf s" and "acceptsAll pf" and "functionName name"
    and "project cfg = p @ ''.'' @ q" and "CHR ''.'' \<notin> set p" and "CHR ''.'' \<notin> set q"
    and "CHR ''.'' \<notin> set r"
    and "handleMessage pf cfg name (project cfg @ ''.'' @ name @ ''.exec.ts.'' @ r, data) s = (go, t)"
  shows "published t = published s
      @ map (Pair (project cfg @ ''.'' @ name @ ''.res.ts.ts'')) (yields (answer pf (files s) name data))"
  using handleMessage_facts(1) [OF assms(1,2,8)] requestID_dotted [OF assms(4-6,3,7)]
  by (simp add: replies_def resSubject_def)

theorem dotted_project_loses_replies_witness:
  "\<exists>go t. handleMessage demoPlatform (demoSettings\<lparr>project := ''my.shop''\<rparr>) ''old''
      (''my.shop.old.exec.ts.r7'', []) demoProc = (go, t)
    \<and> published t = map (Pair ''my.shop.old.res.ts.ts'') (yields (answer demoPlatform demoFiles ''old'' []))"
proof -
  let ?cfg = "demoSettings\<lparr>project := ''my.shop''\<rparr>"
  obtain go t where h: "handleMessage demoPlatform ?cfg ''old''
      (project ?cfg @ ''.'' @ ''old'' @ ''.exec.ts.'' @ ''r7'', []) demoProc = (go, t)"
    by (cases "handleMessage demoPlatform ?cfg ''old''
      (project ?cfg @ ''.'' @ ''old'' @ ''.exec.ts.'' @ ''r7'', []) demoProc")
  have "acceptsAll demoPlatform" by (simp add: acceptsAll_def)
  from dotted_project_loses_replies [OF initial_fresh this demo_functions(2) _ _ _ _ h, of "''my''" "''shop''"] h
  show ?thesis by simp
qed

text \<open>
  C27. A consumer answers its messages one after the other: what it publishes is the concatenation,
  in the order of arrival, of the replies to the messages up to and including the first one whose
  invocation never ends; the messages behind that one are never answered.
\<close>

theorem messages_answered_in_order:
  assumes "loaderFresh pf s" and "acceptsAll pf"
  shows "published (consumerTask pf cfg name msgs s) = published s
    @ concat (map (replies pf cfg (files s) name) (reached (answered pf (files s) name) msgs))"
  by (rule consumerTask_published [OF assms])

theorem messages_answered_in_order_witness:
  "published (consumerTask demoPlatform demoSettings ''old'' [(''shop.old.exec.ts.r7'', []), (''shop.old.exec.ts.r8'', [])] demoProc)
    = concat (map (replies demoPlatform demoSettings demoFiles ''old'')
        (reached (answered demoPlatform demoFiles ''old'') [(''shop.old.exec.ts.r7'', []), (''shop.old.exec.ts.r8'', [])]))"
proof -
  have "acceptsAll demoPlatform" by (simp add: acceptsAll_def)
  from messages_answered_in_order [OF initial_fresh [of demoPlatform demoFiles] this]
  show ?thesis by (simp only: initialState_simps append_Nil)
qed

text \<open>
  Publishing a stream sends its chunks in order up to the first one the connection refuses,
  and changes nothing else.
\<close>

theorem publish_prefix:
  "snd (publishAll pf subject g s) = s\<lparr>published := published s
     @ map (Pair subject) (takeWhile (\<lambda>out. natsPublish pf subject out = None) (yields g))\<rparr>"
  by (rule publishAll_state)

section \<open>The hook\<close>

text \<open>
  C19. Handling a hook message never throws and keeps the runtime's invariant. When it reports
  success in the log, the runtime serves exactly the functions on disk, each through one
  subscription and from the file on disk; otherwise it has logged the failure.
\<close>

theorem hook_outcome:
  assumes "installed pf" and "commandsTidy pf" and "serviceInv cfg s"
  shows "\<exists>t. handleHook pf cfg msg s = (Inr (), t) \<and> serviceInv cfg t
    \<and> (upToDate pf cfg t \<and> last (console t) = Info ''runtime code refreshed via hook'' [(''project'', project cfg)]
       \<or> (\<exists>e. last (console t) = Error ''failed to refresh runtime code''
            [(''project'', project cfg), (''error'', err_string e)]))"
  by (rule handleHook_cases [OF assms])

theorem hook_outcome_witness:
  "\<exists>t. handleHook demoPlatform demoSettings (''shop.hook.ts'', []) demoProc = (Inr (), t)
    \<and> serviceInv demoSettings t"
  using hook_outcome [OF demo_installed demo_tidy demo_serviceInv] by blast

text \<open>The hook's task outlives every sequence of messages, whatever fails in between.\<close>

theorem hook_survives:
  assumes "installed pf" and "commandsTidy pf" and "serviceInv cfg s"
  shows "\<exists>t. hookTask pf cfg msgs s = (Inr (), t) \<and> serviceInv cfg t"
  by (rule hookTask_total [OF assms])

theorem hook_survives_witness:
  "\<exists>t. hookTask demoPlatform demoSettings [(''shop.hook.ts'', []), (''shop.hook.ts'', [1])] demoProc = (Inr (), t)
    \<and> serviceInv demoSettings t"
  by (rule hook_survives [OF demo_installed demo_tidy demo_serviceInv])

section \<open>The synchronous mode\<close>


definition demoRequest :: http_request where
  "demoRequest = \<lparr>reqHeaders = [(''x-litefunction-name'', ''old'')], reqBody = Some [123, 125], bodyUsed = False\<rparr>"

lemma demoRequest_facts:
  "requestedName cfg demoRequest = ''old''"
  "consumeBody demoRequest = (Inr [123, 125], demoRequest\<lparr>bodyUsed := True\<rparr>)"
proof -
  have "toLowerCase ''x-litefunction-name'' = toLowerCase ''X-Litefunction-Name''" by code_simp
  then show "requestedName cfg demoRequest = ''old''"
    by (simp add: demoRequest_def requestedName_def headersGet_def)
qed (simp add: demoRequest_def consumeBody_def)

lemma demo_old_loads:
  assumes "files s = demoFiles" and "metaDir pf = metaDir demoPlatform"
  shows "loadUncached pf (files s) ''old'' = evalModule pf [120]"
proof -
  have "runtimeFunctionsPath pf = runtimeFunctionsPath demoPlatform"
    by (simp add: runtimeFunctionsPath_def assms(2))
  moreover have "installed pf" using demo_installed by (simp add: installed_def assms(2))
  ultimately show ?thesis
    using demo_runtime_dir(2) [OF assms(1)] demo_functions(2) by (simp add: loadUncached_entry)
qed


text \<open>
  C28. In the synchronous mode the body of a request is read before the handler sees the request,
  and the handler gets the same request: a handler that parses the body, which works for a
  message with that payload, fails for every HTTP request with a body, with a 500.
\<close>

theorem sync_handler_cannot_read_body:
  assumes "loaderFresh pf s" and "requestedName cfg req = name" and "name \<noteq> []"
    and "reqBody req = Some body" and "bodyUsed req = False"
    and "loadUncached pf (files s) name = Inr (Module (Some (\<lambda>arg.
          case argJson (parseJSON pf) arg of Inl e \<Rightarrow> Rejected e | Inr v \<Rightarrow> h v)))"
  shows "fst (handleSyncRequest pf cfg req s) = Resolved (textResponse ''TypeError: Body already used'' 500)
    \<and> answer pf (files s) name body =
        (case argJson (parseJSON pf) (toRequestLike body) of
           Inl e \<Rightarrow> Fail e | Inr v \<Rightarrow> settledChunks (h v))"
proof -
  have c: "consumeBody req = (Inr body, req\<lparr>bodyUsed := True\<rparr>)"
    using assms(4,5) by (simp add: consumeBody_def)
  have used: "fst (consumeBody (req\<lparr>bodyUsed := True\<rparr>)) = Inl bodyUsedError"
    using assms(4) by (simp add: consumeBody_def)
  have "invokeUncached pf (files s) name body (Some (req\<lparr>bodyUsed := True\<rparr>)) = Fail bodyUsedError"
    using assms(6) used by (simp add: invokeUncached_def runHandler_def settledChunks_def)
  moreover have "err_string bodyUsedError = ''TypeError: Body already used''" by (simp add: bodyUsedError_def)
  moreover have "\<not> contains ''TypeError: Body already used'' ''not found''" by (simp add: startsWith_def)
  ultimately have "fst (handleSyncRequest pf cfg req s)
      = Resolved (textResponse ''TypeError: Body already used'' 500)"
    using handleSyncRequest_fresh [OF assms(1) _ c, of cfg] assms(2,3) by (simp add: syncChunk_def)
  moreover have "answer pf (files s) name body = (case argJson (parseJSON pf) (toRequestLike body) of
      Inl e \<Rightarrow> Fail e | Inr v \<Rightarrow> settledChunks (h v))"
    using assms(6)
    by (simp add: answer_def invokeUncached_def runHandler_def settledChunks_def split: sum.splits)
  ultimately show ?thesis by blast
qed

theorem sync_handler_cannot_read_body_witness:
  "fst (handleSyncRequest (demoPlatform\<lparr>evalModule := \<lambda>b. Inr (Module (Some (\<lambda>arg.
        case argJson (parseJSON demoPlatform) arg of Inl e \<Rightarrow> Rejected e | Inr v \<Rightarrow> Resolved v)))\<rparr>)
      demoSettings demoRequest demoProc) = Resolved (textResponse ''TypeError: Body already used'' 500)"
proof -
  let ?pf = "demoPlatform\<lparr>evalModule := \<lambda>b. Inr (Module (Some (\<lambda>arg.
        case argJson (parseJSON demoPlatform) arg of Inl e \<Rightarrow> Rejected e | Inr v \<Rightarrow> Resolved v)))\<rparr>"
  have parse: "parseJSON ?pf = parseJSON demoPlatform" by (simp add: parseJSON_def fun_eq_iff demoPlatform_def split: option.split)
  have load: "loadUncached ?pf (files demoProc) ''old'' = Inr (Module (Some (\<lambda>arg.
      case argJson (parseJSON ?pf) arg of Inl e \<Rightarrow> Rejected e | Inr v \<Rightarrow> Resolved v)))"
    unfolding parse using demo_old_loads [of demoProc ?pf] by simp
  show ?thesis
    by (rule sync_handler_cannot_read_body [OF initial_fresh demoRequest_facts(1) _ _ _ load, THEN conjunct1])
      (simp_all add: demoRequest_def)
qed



section \<open>The connection\<close>

text \<open>
  Creating the state succeeds exactly when the connection, the manager and the stream are
  there: an error of adding the stream counts as its presence exactly when its text, in lower
  case, contains \<^verbatim>\<open>name already in use\<close>. Otherwise the first failing call's error is thrown,
  and nothing has been logged.
\<close>

theorem appStateNew_outcome:
  "(case appStateNew pf cfg s of
      (Inr a, t) \<Rightarrow>
        nc a = NatsConnection (natsURL cfg) \<and> js a = JetStreamClient (nc a)
        \<and> natsConnect pf (natsURL cfg) = None \<and> natsManager pf = None
        \<and> (case streamsAdd pf (project cfg) [project cfg @ ''.>''] of
             None \<Rightarrow> True
           | Some e \<Rightarrow> contains (toLowerCase (err_string e)) ''name already in use'')
    | (Inl e, t) \<Rightarrow>
        t = s \<and> Some e =
          (case natsConnect pf (natsURL cfg) of
             Some e1 \<Rightarrow> Some e1
           | None \<Rightarrow>
               (case natsManager pf of
                  Some e2 \<Rightarrow> Some e2
                | None \<Rightarrow>
                    (case streamsAdd pf (project cfg) [project cfg @ ''.>''] of
                       Some e3 \<Rightarrow>
                         if contains (toLowerCase (err_string e3)) ''name already in use'' then None
                         else Some e3
                     | None \<Rightarrow> None))))"
  by (simp add: appStateNew_cases streamExists_iff split: option.splits)

section \<open>Boot\<close>

text \<open>
  C21. The boot ends in one of two ways. Either the server listens on the configured port, and then
  the functions on disk are the ones of the clone, each listened for, and the hook has its one
  subscription; or the process exits with code 1, does not listen, and the last line of its log
  is the fatal error.
\<close>

theorem boot_outcome:
  assumes "installed pf" and "commandsTidy pf" and "fsInv fs"
  shows "\<exists>t. runMain pf cfg (initialState fs) = (Inr (), t) \<and>
    (listening t = Some (httpPort cfg) \<and> exitCode t = None \<and> serviceInv cfg t \<and> upToDate pf cfg t
       \<and> liveOn t (hookSubject cfg) = 1
     \<or> listening t = None \<and> exitCode t = Some 1
       \<and> (\<exists>e. last (console t) = Fatal ''runtime boot failed'' e))"
proof -
  obtain x u where m: "main pf cfg (initialState fs) = (x, u)" by (cases "main pf cfg (initialState fs)")
  show ?thesis
  proof (cases x)
    case (Inl e)
    from main_Inl [OF m [unfolded Inl]] have "listening u = None" by (simp add: procPart_def)
    with m Inl show ?thesis by (simp add: runMain_def tryCatch_def modify_def)
  next
    case (Inr v)
    note ok = main_okE [OF assms(1,2) initial_serviceInv [OF assms(3)] m [unfolded Inr]]
    have "liveOn (initialState fs) (hookSubject cfg) = 0" by (simp add: liveOn_def)
    with m Inr ok show ?thesis by (cases v) (simp add: runMain_def tryCatch_def)
  qed
qed

text \<open>The example process boots.\<close>

lemma demo_run: "run demoPlatform cmd s = (Inr (), s\<lparr>spawned := spawned s @ [cmd]\<rparr>)"
  by (simp add: run_def demoPlatform_def Let_def)

lemma demo_refresh:
  fixes s :: "'a fn_state_scheme"
  assumes f: "files s = demoFiles"
  shows "\<exists>s' t. syncRepoAndReload demoPlatform demoSettings s = (Inr (), t) \<and> files s' = demoFiles
    \<and> loaderPart s' = loaderPart s
    \<and> syncRuntimeFunctionsDir demoPlatform demoSettings (repoFunctionsPath demoSettings) s' = (Inr (), t)"
proof -
  let ?c = "console s @ [Info ''syncing repo'' [(''project'', project demoSettings),
    (''repo_url'', vcsBaseURL demoSettings @ ''/'' @ gitUser demoSettings @ ''/'' @ project demoSettings)]]"
  let ?s = "s\<lparr>console := ?c,
    spawned := spawned s @ [gitFetch demoSettings, gitReset demoSettings ''origin/main'']\<rparr>"
  have "fsExists demoFiles (repoPath demoSettings)"
    unfolding fsExists_def demo_repoPath_key by (simp add: demoFiles_def fsStat_def mapGet_def)
  then have "syncRepo demoPlatform demoSettings (s\<lparr>console := ?c\<rparr>) = (Inr (), ?s)"
    by (simp add: syncRepo_def andThen_def tryCatch_def f demo_run)
  then have eq: "syncRepoAndReload demoPlatform demoSettings s =
      syncRuntimeFunctionsDir demoPlatform demoSettings (repoFunctionsPath demoSettings) ?s"
    by (simp add: syncRepoAndReload_def logInfo_def andThen_Inr)
  have f': "files ?s = demoFiles" "loaderPart ?s = loaderPart s" using f by (simp_all add: loaderPart_def)
  have "dirReady (runtimeFunctionsPath demoPlatform) (repoFunctionsPath demoSettings) ?s"
    using demo_ready f'(1) by (simp add: dirReady_def)
  from sync_total [OF demo_installed this demo_apart, of demoSettings]
  have "\<exists>t. syncRuntimeFunctionsDir demoPlatform demoSettings (repoFunctionsPath demoSettings) ?s = (Inr (), t)"
    using demo_no_dirs f'(1) by (simp add: dirEntry_def)
  with eq f' show ?thesis by metis
qed

lemma demo_main_serves:
  "\<exists>t. main demoPlatform demoSettings demoProc = (Inr (), t)
    \<and> loadUncached demoPlatform (files t) ''hello'' = Inr (demoModule [104, 105])"
proof -
  have e: "ensureRuntimeDir demoPlatform demoProc = (Inr (), demoProc)"
    using fsMkdir_present [OF demo_fsInv] demo_runtime_dir(1) [of demoProc]
    by (simp add: ensureRuntimeDir_def onFiles_def)
  obtain a s1 where n: "appStateNew demoPlatform demoSettings demoProc = (Inr a, s1)"
    by (simp add: appStateNew_cases)
  then have s1: "files s1 = demoFiles" "serviceInv demoSettings s1"
    using ensure_app_inv(2) [OF demo_serviceInv, of demoPlatform] by (auto simp: appStateNew_cases)
  obtain s' s2 where y: "syncRepoAndReload demoPlatform demoSettings s1 = (Inr (), s2)"
    and s': "files s' = demoFiles"
      "syncRuntimeFunctionsDir demoPlatform demoSettings (repoFunctionsPath demoSettings) s' = (Inr (), s2)"
      "loaderPart s' = loaderPart s1"
    using demo_refresh [OF s1(1)] by blast
  have s2: "serviceInv demoSettings s2" by (rule keepsD [OF refresh_inv [OF demo_tidy] s1(2) y])
  then have s2': "fsInv (files s2)" "consumersInv demoSettings s2" by (simp_all add: serviceInv_def)
  have fs': "fsInv (files s')" using s'(1) demo_fsInv by simp
  from sync_Inr(3) [OF demo_installed this repoFunctionsPath_key(1) source_neq_runtime [OF demo_installed] s'(2)]
  have dir: "fsStat (files s2) (pathKey (runtimeFunctionsPath demoPlatform)) = Some Dir" .
  obtain x s3 where r: "reconcileConsumers demoPlatform demoSettings s2 = (x, s3)"
    by (cases "reconcileConsumers demoPlatform demoSettings s2")
  have "x = Inr ()"
  proof (cases x)
    case (Inl e)
    from reconcile_error [OF s2' r [unfolded Inl]]
    have "listFunctions demoPlatform s2 = (Inl e, s2)" by simp
    with listFunctions_outcome [OF s2'(1), of demoPlatform] dir show ?thesis by simp
  qed simp
  have "fsStat demoFiles (pathKey (repoFunctionsPath demoSettings) @ [''hello'' @ ''.ts'']) = Some (File [104, 105])"
    by (simp add: demo_repoFunctions_key) (simp add: demoFiles_def fsStat_def mapGet_def)
  moreover have "evalModule demoPlatform [104, 105] = Inr (demoModule [104, 105])" by (simp add: demoPlatform_def)
  ultimately have "loadUncached demoPlatform (files s2) ''hello'' = Inr (demoModule [104, 105])"
    using sync_serves(3) [OF demo_installed fs' _ s'(2) demo_functions(1)] s'(1,3) s1(2)
    by (simp add: serviceInv_def loaderInv_def loaderPart_def)
  moreover have "files s3 = files s2" using restPartD(1) [OF reconcile_keeps(3) [OF s2' r]] .
  ultimately show ?thesis using e n y r \<open>x = Inr ()\<close>
    by (simp add: main_def andThen_Inr watchTSHook_cases serve_def logInfo_def modify_def Let_def)
qed

lemma demo_main_ok: "\<exists>t. main demoPlatform demoSettings demoProc = (Inr (), t)"
  using demo_main_serves by blast

theorem boot_outcome_witness:
  "\<exists>t. runMain demoPlatform demoSettings demoProc = (Inr (), t)
    \<and> listening t = Some 8080 \<and> liveOn t (hookSubject demoSettings) = 1"
proof -
  obtain t where "main demoPlatform demoSettings demoProc = (Inr (), t)" using demo_main_ok by blast
  then have t: "runMain demoPlatform demoSettings demoProc = (Inr (), t)" by (simp add: runMain_def tryCatch_def)
  have "listening t = Some 8080"
    using main_okE(3) [OF demo_installed demo_tidy demo_serviceInv] demo_main_ok
      \<open>main demoPlatform demoSettings demoProc = (Inr (), t)\<close> by (simp add: demoSettings_def)
  with t boot_outcome [OF demo_installed demo_tidy demo_fsInv, of demoSettings] show ?thesis by auto
qed

end
