(* ===== verification/Rt_Tasks.thy ===== *)
theory Rt_Tasks
  imports Rt_Interleave Rt_Contracts
begin

text \<open>
  The properties of interleaved loads and refreshes: what interleaving cannot change (the disk a
  refresh leaves, the freshness of the cache after it), and what callers see in between.
\<close>

section \<open>Runs of one task\<close>

text \<open>A refresh while the loads rest, in any relation that has its steps.\<close>

lemma reach_refresh:
  fixes s :: "'a fn_state_scheme"
  assumes "\<And>x y. taskStep pf cfg quiet x StepRefresh y \<Longrightarrow> step x StepRefresh y"
    and "quiet \<Longrightarrow> \<forall>(n, q) \<in> set ls. \<not> inFlight q"
    and "reach init step (s, Refreshing pc, ls)" and "\<not> refreshDone pc"
    and "refreshRun pf cfg pc s = (pc', t)"
  shows "reach init step (t, afterStep pc', ls)"
  using assms
proof (induction pf cfg pc s rule: refreshRun.induct)
  case (1 pf cfg pc s)
  obtain q u where u: "refreshStep pf cfg pc s = (q, u)" by (cases "refreshStep pf cfg pc s")
  have "taskStep pf cfg quiet (s, Refreshing pc, ls) StepRefresh (u, afterStep q, ls)"
    by (rule step_refresh [OF 1(5) u]) (rule 1(3))
  with 1(4) 1(2) have r: "reach init step (u, afterStep q, ls)" by (blast intro: reach_step)
  have run: "refreshRun pf cfg q u = (pc', t)" using 1(6) u by (simp add: run_step [OF 1(5)])
  show ?case
  proof (cases "refreshDone q")
    case True
    with run r show ?thesis by (simp add: refreshRun.simps [of pf cfg q])
  next
    case False
    then have "afterStep q = Refreshing q" by (cases q rule: afterStep.cases) auto
    with 1(1) [OF 1(5) u [symmetric] 1(2,3) _ False run] r show ?thesis by simp
  qed
qed

lemma reach_begin:
  "reach (\<lambda>x. x = (s, Idle ok, ls)) (taskStep pf cfg quiet) (refreshBegin cfg s, Refreshing Checking, ls)"
proof -
  have "reach (\<lambda>x. x = (s, Idle ok, ls)) (taskStep pf cfg quiet) (s, Idle ok, ls)" by (rule reach_init) simp
  then show ?thesis by (rule reach_step) (rule begin_refresh)
qed

text \<open>Until the copying starts, a refresh that succeeds goes on to the check of the clone.\<close>

lemma before_window:
  assumes "4 < fst (refreshRank pc)" and "refreshStep pf cfg pc s = (pc', t)"
  shows "(\<exists>e. pc' = Aborted e) \<or> pc' = CheckingSource \<or> 4 < fst (refreshRank pc')"
proof (cases "(pf, cfg, pc, s)" rule: refreshStep.cases)
  case 3
  with assms show ?thesis by (auto split: prod.splits sum.splits)
qed (use assms in \<open>auto dest!: proceedD simp: removing_def split: if_splits\<close>)

lemma reach_window:
  fixes s :: "'a fn_state_scheme"
  assumes "reach init (taskStep pf cfg quiet) (s, Refreshing pc, [])" and "4 < fst (refreshRank pc)"
    and "refreshRun pf cfg pc s = (Completed, t)"
  shows "\<exists>u. reach init (taskStep pf cfg quiet) (u, Refreshing CheckingSource, [])
    \<and> loaderPart u = loaderPart s"
  using assms
proof (induction pf cfg pc s rule: refreshRun.induct)
  case (1 pf cfg pc s)
  obtain q u where u: "refreshStep pf cfg pc s = (q, u)" by (cases "refreshStep pf cfg pc s")
  have nd: "\<not> refreshDone pc" and nc: "\<And>n. pc \<noteq> Clearing n" using 1(3) by (cases pc; simp)+
  have "taskStep pf cfg quiet (s, Refreshing pc, []) StepRefresh (u, afterStep q, [])"
    by (rule step_refresh [OF nd u]) simp
  with 1(2) have r: "reach init (taskStep pf cfg quiet) (u, afterStep q, [])" by (rule reach_step)
  have run: "refreshRun pf cfg q u = (Completed, t)" using 1(4) u by (simp add: run_step [OF nd])
  have l: "loaderPart u = loaderPart s" by (rule refreshStep_blind [OF u loaderPart_blind refl nc])
  from before_window [OF 1(3) u] consider e where "q = Aborted e" | "q = CheckingSource" | "4 < fst (refreshRank q)"
    by blast
  then show ?case
  proof cases
    case 2
    with r l show ?thesis by auto
  next
    case 3
    then have "afterStep q = Refreshing q" by (cases q rule: afterStep.cases) auto
    with 1(1) [OF nd u [symmetric] _ 3 run] r l show ?thesis by simp
  qed (use run in simp)
qed

lemma reach_load:
  assumes "\<And>x i y. taskStep pf cfg quiet x (StepLoad i) y \<Longrightarrow> step x (StepLoad i) y"
    and "reach init step (s, r, [(name, pc)])" and "loadSteps pf name n pc s = (pc', t)"
  shows "reach init step (t, r, [(name, pc')])"
  using assms(2,3)
proof (induction n arbitrary: pc s)
  case (Suc n)
  obtain q u where u: "loadStep pf name pc s = (q, u)" by (cases "loadStep pf name pc s")
  have "taskStep pf cfg quiet (s, r, [(name, pc)]) (StepLoad 0) (u, r, [(name, pc)][0 := (name, q)])"
    by (rule step_load [OF _ _ u]) simp_all
  from reach_step [OF Suc.prems(1) assms(1) [OF this]] have "reach init step (u, r, [(name, q)])" by simp
  from Suc.IH [OF this] Suc.prems(2) u show ?case by simp
qed simp

section \<open>Properties\<close>

text \<open>
  Loads and refreshes may be interleaved at every \<^verbatim>\<open>await\<close>: as long as no load is between its
  import and the storing of its module when a refresh clears the cache, loading gives what the
  files on disk give whenever no refresh runs and the last one succeeded.
\<close>

theorem interleaved_loads_are_fresh:
  assumes "loaderInv s" and "loaderFresh pf s"
    and "reach (\<lambda>x. x = (s, Idle True, [])) (taskStep pf cfg True) (t, Idle True, ls)"
  shows "fst (loadModule pf name t) = loadUncached pf (files t) name"
proof -
  have "loadsInv pf (s, Idle True, [])" using assms(1,2) by simp
  from loads.run_inv [OF this assms(3)] have "loaderFresh pf t" by simp
  then show ?thesis by (rule cached.load_view)
qed

theorem interleaved_loads_are_fresh_witness:
  "\<exists>t. reach (\<lambda>x. x = (demoState, Idle True, [])) (taskStep demoPlatform demoSettings True)
      (t, Idle True, [(''hello'', Loaded (Inr (demoModule [104, 105])))])"
proof -
  let ?R = "reach (\<lambda>x. x = (demoState, Idle True, [])) (taskStep demoPlatform demoSettings True)"
  obtain s' t where t: "syncRepoAndReload demoPlatform demoSettings demoState = (Inr (), t)"
    and s': "files s' = demoFiles" "loaderPart s' = loaderPart demoState"
      "syncRuntimeFunctionsDir demoPlatform demoSettings (repoFunctionsPath demoSettings) s' = (Inr (), t)"
    using demo_refresh [of demoState] by auto
  have run: "refreshRun demoPlatform demoSettings Checking (refreshBegin demoSettings demoState) = (Completed, t)"
    using refreshRun_atomic [of demoPlatform demoSettings demoState] t by simp
  have r: "?R (t, Idle True, [])" using reach_refresh [OF _ _ reach_begin _ run] by simp
  have inv: "loaderInv demoState" "loaderFresh demoPlatform demoState"
    by (simp_all add: loaderInv_def loaderFresh_def)
  have "loaderInv s'" "fsInv (files s')" using s' demo_fsInv by (simp_all add: loaderInv_def loaderPart_def)
  moreover have "fsStat (files s') (pathKey (repoFunctionsPath demoSettings) @ [''hello'' @ ''.ts'']) = Some (File [104, 105])"
    unfolding s'(1) demo_repoFunctions_key by (simp add: demoFiles_def fsStat_def mapGet_def)
  moreover have "evalModule demoPlatform [104, 105] = Inr (demoModule [104, 105])" by (simp add: demoPlatform_def)
  ultimately have "loadUncached demoPlatform (files t) ''hello'' = Inr (demoModule [104, 105])"
    using sync_serves(3) [OF demo_installed _ _ s'(3) demo_functions(1)] by simp
  then obtain u where "loadModule demoPlatform ''hello'' t = (Inr (demoModule [104, 105]), u)"
    using interleaved_loads_are_fresh [OF inv r, of "''hello''"]
    by (cases "loadModule demoPlatform ''hello'' t") simp
  then have u: "loadSteps demoPlatform ''hello'' (5 + 0) Lookup t = (Loaded (Inr (demoModule [104, 105])), u)"
    unfolding load_steps_are_the_load by simp
  have "?R (t, Idle True, [] @ [(''hello'', Lookup)])" by (rule reach_step [OF r start_load])
  from reach_load [OF _ this [simplified] u] show ?thesis by blast
qed

text \<open>
  C13. However loads are interleaved with a refresh, it ends as it would have ended without them: on
  the same files, with the same version of the cache, and with success or failure alike.
\<close>

theorem refresh_undisturbed_by_loads:
  assumes "taskStep pf cfg quiet (s, Idle ok, ls) BeginRefresh x"
    and "reach (\<lambda>y. y = x) (noBegin pf cfg quiet) (t, Idle ok', ls')"
    and "syncRepoAndReload pf cfg s = (r, u)"
  shows "files t = files u \<and> moduleVersion t = moduleVersion u \<and> (ok' \<longleftrightarrow> r = Inr ())"
proof -
  let ?o = "map_prod id diskPart (refreshRun pf cfg Checking (refreshBegin cfg s))"
  have x: "x = (refreshBegin cfg s, Refreshing Checking, ls)"
    using assms(1) by (simp add: begin_refresh_simps)
  then have "endsAs pf cfg ?o x" by simp
  from ends.run_inv [OF this assms(2)] have "endsAs pf cfg ?o (t, Idle ok', ls')" .
  then show ?thesis
    using assms(3) by (cases r) (simp_all add: refreshRun_atomic diskPart_def)
qed

theorem refresh_undisturbed_by_loads_witness:
  "\<exists>x t u. taskStep demoPlatform demoSettings True (demoState, Idle True, []) BeginRefresh x
    \<and> reach (\<lambda>y. y = x) (noBegin demoPlatform demoSettings True) (t, Idle True, [])
    \<and> syncRepoAndReload demoPlatform demoSettings demoState = (Inr (), u) \<and> files t = files u"
proof -
  let ?x = "(refreshBegin demoSettings demoState, Refreshing Checking, [])"
  obtain u where u: "syncRepoAndReload demoPlatform demoSettings demoState = (Inr (), u)"
    using demo_refresh [of demoState] by auto
  then have run: "refreshRun demoPlatform demoSettings Checking (refreshBegin demoSettings demoState) = (Completed, u)"
    using refreshRun_atomic [of demoPlatform demoSettings demoState] by simp
  have x: "taskStep demoPlatform demoSettings True (demoState, Idle True, []) BeginRefresh ?x"
    by (rule begin_refresh)
  have "reach (\<lambda>y. y = ?x) (noBegin demoPlatform demoSettings True) ?x" by (rule reach_init) simp
  from reach_refresh [OF _ _ this _ run, of True]
  have r: "reach (\<lambda>y. y = ?x) (noBegin demoPlatform demoSettings True) (u, Idle True, [])"
    by (simp add: noBegin_def)
  from refresh_undisturbed_by_loads [OF x r u] x r u show ?thesis by blast
qed

text \<open>
  C14. Every refresh that succeeds has a window: after the old files are removed and before the new
  ones are written, a request for a function that is not in the cache is answered with a 404,
  also if the function exists before and after the refresh.
\<close>

theorem every_refresh_has_a_window:
  assumes "installed pf" and "commandsTidy pf" and "fsInv (files s)"
    and "syncRepoAndReload pf cfg s = (Inr (), t)"
    and "functionName (requestedName cfg req)" and "mapGet (modules s) (requestedName cfg req) = None"
    and "consumeBody req = (Inr body, req')"
  shows "\<exists>u. reach (\<lambda>x. x = (s, Idle ok, [])) (taskStep pf cfg quiet) (u, Refreshing CheckingSource, [])
    \<and> fst (handleSyncRequest pf cfg req u) = Resolved (textResponse
        (''function '' @ [CHR 0x27] @ requestedName cfg req @ [CHR 0x27] @ '' not found'') 404)"
proof -
  let ?n = "requestedName cfg req"
  let ?R = "reach (\<lambda>x. x = (s, Idle ok, [])) (taskStep pf cfg quiet)"
  have "?R (refreshBegin cfg s, Refreshing Checking, [])" by (rule reach_begin)
  moreover have "refreshRun pf cfg Checking (refreshBegin cfg s) = (Completed, t)"
    using refreshRun_atomic [of pf cfg s] assms(4) by simp
  moreover have "loaderPart (refreshBegin cfg s) = loaderPart s"
    by (simp add: refreshBegin_def logInfo_def modify_def loaderPart_def)
  ultimately obtain u where u: "?R (u, Refreshing CheckingSource, [])" "loaderPart u = loaderPart s"
    using reach_window [of _ pf cfg quiet "refreshBegin cfg s" Checking t] by auto
  have "windowsInv pf cfg (s, Idle ok, [])" using assms(3) by simp
  from window.run_inv [OF _ u(1)] this assms(1,2) have "windowsInv pf cfg (u, Refreshing CheckingSource, [])" by blast
  then have gone: "dirEntry (runtimeFunctionsPath pf) u (?n @ ''.ts'') = None" using assms(5) by simp
  have "loadUncached pf (files u) ?n = Inl (notFoundError pf ?n)"
    using gone by (simp add: loadUncached_entry [OF assms(1,5)])
  moreover have "\<not> fsExists (files u) (functionPath pf ?n)"
    using gone by (simp add: fsExists_def functionPath_key [OF assms(1,5)] dirEntry_def)
  moreover have "mapGet (modules u) ?n = None" using u(2) assms(6) by (simp add: loaderPart_def)
  ultimately have "loadModule pf ?n u = (Inl (notFoundError pf ?n), u)" by (simp add: loadModule_cases)
  then have "invokeModule pf ?n [] body (Some req') u = (Fail (notFoundError pf ?n), u)"
    by (simp add: invokeModule_def)
  moreover have "contains (err_string (notFoundError pf ?n)) ''not found''"
    unfolding notFoundError_def err_string.simps contains_iff
    by (intro exI [of _ "''Error: function '' @ [CHR 0x27] @ ?n @ [CHR 0x27] @ '' ''"]
        exI [of _ "'' in '' @ runtimeFunctionsPath pf"]) simp
  moreover have "?n \<noteq> []" using functionName_free(3) [OF assms(5)] .
  ultimately have "fst (handleSyncRequest pf cfg req u) = Resolved (textResponse
      (''function '' @ [CHR 0x27] @ ?n @ [CHR 0x27] @ '' not found'') 404)"
    using assms(7) by (simp add: handleSyncRequest_def Let_def)
  with u(1) show ?thesis by blast
qed

theorem every_refresh_has_a_window_witness:
  "\<exists>u. reach (\<lambda>x. x = (demoProc, Idle True, [])) (taskStep demoPlatform demoSettings True)
      (u, Refreshing CheckingSource, [])
    \<and> fst (handleSyncRequest demoPlatform demoSettings demoRequest u) = Resolved (textResponse
        (''function '' @ [CHR 0x27] @ ''old'' @ [CHR 0x27] @ '' not found'') 404)"
proof -
  obtain t where t: "syncRepoAndReload demoPlatform demoSettings demoProc = (Inr (), t)"
    using demo_refresh [of demoProc] by auto
  show ?thesis
    using every_refresh_has_a_window [OF demo_installed demo_tidy demo_invs(1) t _ _ demoRequest_facts(2)]
      demo_functions(2) by (simp add: demoRequest_facts(1))
qed

section \<open>A load in flight while the cache is cleared\<close>

lemma cached_stays:
  assumes "mapGet (modules s) name = Some md"
  shows "mapGet (modules (snd (loadModule pf n s))) name = Some md"
  using assms by (auto simp: loadModule_cases mapGet_set dest!: importModule_frame
      split: option.splits prod.splits sum.splits)

lemma cached_stays_loads:
  "mapGet (modules s) name = Some md \<Longrightarrow>
     mapGet (modules (fold (\<lambda>n s. snd (loadModule pf n s)) ns s)) name = Some md"
  by (induction ns arbitrary: s) (simp_all add: cached_stays)

text \<open>
  C25. A refresh that completes while a load has its module but has not stored it is undone for that
  function: the old module enters the new cache, and from then on, however many loads follow,
  the function runs its old code although the file on disk has changed or is gone.
\<close>

theorem refresh_during_load_leaves_stale_module:
  assumes "loadSteps pf name 4 Lookup s = (Storing md, u)"
    and "syncRepoAndReload pf cfg u = (Inr v, t)"
    and "loadUncached pf (files t) name \<noteq> Inr md"
  shows "\<exists>w. reach (\<lambda>x. x = (s, Idle True, [])) (taskStep pf cfg False)
      (w, Idle True, [(name, Loaded (Inr md))])
    \<and> files w = files t
    \<and> (\<forall>ns. fst (loadModule pf name (fold (\<lambda>n x. snd (loadModule pf n x)) ns w)) = Inr md)
    \<and> loadUncached pf (files w) name \<noteq> Inr md"
proof -
  let ?R = "reach (\<lambda>x. x = (s, Idle True, [])) (taskStep pf cfg False)"
  let ?w = "t\<lparr>modules := mapSet name md (modules t)\<rparr>"
  have "?R (s, Idle True, [])" by (rule reach_init) simp
  then have "?R (s, Idle True, [] @ [(name, Lookup)])" by (rule reach_step) (rule start_load)
  from reach_load [OF _ this [simplified] assms(1)] have "?R (u, Idle True, [(name, Storing md)])" by simp
  then have "?R (refreshBegin cfg u, Refreshing Checking, [(name, Storing md)])"
    by (rule reach_step) (rule begin_refresh)
  moreover have "refreshRun pf cfg Checking (refreshBegin cfg u) = (Completed, t)"
    using refreshRun_atomic [of pf cfg u] assms(2) by simp
  ultimately have "?R (t, Idle True, [(name, Storing md)])"
    using reach_refresh [of pf cfg False "taskStep pf cfg False" "[(name, Storing md)]"] by fastforce
  from reach_load [OF _ this, of pf cfg False 1] have r: "?R (?w, Idle True, [(name, Loaded (Inr md))])" by simp
  have "mapGet (modules ?w) name = Some md" by (simp add: mapGet_set)
  from cached_stays_loads [OF this]
  have "fst (loadModule pf name (fold (\<lambda>n x. snd (loadModule pf n x)) ns ?w)) = Inr md" for ns
    by (simp add: loadModule_cases)
  with r assms(3) show ?thesis by (intro exI [of _ ?w]) simp
qed

lemma demo_import:
  "loadSteps demoPlatform ''old'' 4 Lookup demoState = (Storing (demoModule [120]),
     demoState\<lparr>importTable := [(importURL (functionPath demoPlatform ''old'') 1, Inr (demoModule [120]))]\<rparr>)"
proof -
  have "pathKey (functionPath demoPlatform ''old'') = [''app'', ''pkg'', ''functions'', ''old.ts'']"
    using functionPath_key [OF demo_installed demo_functions(2)] by (simp add: demo_runtime_key)
  then have "fsStat demoFiles (pathKey (functionPath demoPlatform ''old'')) = Some (File [120])"
    by (simp add: demoFiles_def fsStat_def mapGet_def)
  moreover have "evalModule demoPlatform b = Inr (demoModule b)" for b by (simp add: demoPlatform_def)
  ultimately show ?thesis
    by (simp add: eval_nat_numeral importModule_def fsExists_def fsReadFile_def Let_def)
qed

theorem refresh_during_load_leaves_stale_module_witness:
  "\<exists>w. reach (\<lambda>x. x = (demoState, Idle True, [])) (taskStep demoPlatform demoSettings False)
      (w, Idle True, [(''old'', Loaded (Inr (demoModule [120])))])
    \<and> fst (loadModule demoPlatform ''old'' w) = Inr (demoModule [120])
    \<and> loadUncached demoPlatform (files w) ''old'' \<noteq> Inr (demoModule [120])"
proof -
  let ?u = "demoState\<lparr>importTable := [(importURL (functionPath demoPlatform ''old'') 1, Inr (demoModule [120]))]\<rparr>"
  have "files ?u = demoFiles" by simp
  from demo_refresh [OF this] obtain s' t where t: "syncRepoAndReload demoPlatform demoSettings ?u = (Inr (), t)"
    and s': "files s' = demoFiles" "loaderPart s' = loaderPart ?u"
      "syncRuntimeFunctionsDir demoPlatform demoSettings (repoFunctionsPath demoSettings) s' = (Inr (), t)" by blast
  have "loaderInv ?u" by (auto simp: loaderInv_def mapGet_def split: if_splits)
  then have "loaderInv s'" using s'(2) by (simp add: loaderInv_def loaderPart_def)
  moreover have "fsStat (files s') (pathKey (repoFunctionsPath demoSettings) @ [''old'' @ ''.ts'']) = None"
    unfolding s'(1) demo_repoFunctions_key by (simp add: demoFiles_def fsStat_def mapGet_def)
  moreover have "fsInv (files s')" using s'(1) demo_fsInv by simp
  ultimately have "loadUncached demoPlatform (files t) ''old'' \<noteq> Inr (demoModule [120])"
    using sync_serves(3) [OF demo_installed _ _ s'(3) demo_functions(2)] by simp
  from refresh_during_load_leaves_stale_module [OF demo_import t this] obtain w where
    w: "reach (\<lambda>x. x = (demoState, Idle True, [])) (taskStep demoPlatform demoSettings False)
      (w, Idle True, [(''old'', Loaded (Inr (demoModule [120])))])"
    "\<forall>ns. fst (loadModule demoPlatform ''old'' (fold (\<lambda>n x. snd (loadModule demoPlatform n x)) ns w)) = Inr (demoModule [120])"
    "loadUncached demoPlatform (files w) ''old'' \<noteq> Inr (demoModule [120])" by blast
  from w(2) [rule_format, of "[]"] w(1,3) show ?thesis by auto
qed

end
