(* ===== verification/Rt_Messages.thy ===== *)
theory Rt_Messages
  imports Rt_Tasks
begin

text \<open>
  Messages handled concurrently: one at a time per function, as each consumer awaits its
  invocation, but any number for different functions, interleaved with loads, requests and
  refreshes. A message waits for its load, then publishes one chunk per step.
\<close>

section \<open>Messages in flight\<close>

datatype message_pc = Awaiting | Streaming "bytes gen" | Ended "js_error option"

record message =
  callee :: string
  reqID :: string
  payload :: bytes
  loadTask :: nat  \<comment> \<open>which of the loads is its own\<close>
  point :: message_pc

definition replySubject :: "settings \<Rightarrow> message \<Rightarrow> string" where
  "replySubject cfg m = resSubject cfg (callee m) (reqID m)"

text \<open>The output of the invocation, given what its load has brought.\<close>

definition outputOf :: "message \<Rightarrow> js_error + loaded_module \<Rightarrow> bytes gen" where
  "outputOf m r =
     (case r of Inl e \<Rightarrow> Fail e | Inr md \<Rightarrow> runHandler (callee m) md (payload m) None)"

text \<open>The \<^verbatim>\<open>catch\<close> of the message loop.\<close>

definition failMessage ::
    "settings \<Rightarrow> message \<Rightarrow> js_error \<Rightarrow> 'a rt_state_scheme \<Rightarrow> message_pc \<times> 'a rt_state_scheme" where
  "failMessage cfg m e s = (Ended (Some e),
     snd (logError ''async invoke failed''
       [(''project'', project cfg), (''function'', callee m), (''error'', err_string e)] s))"

definition resumeMessage ::
    "platform \<Rightarrow> settings \<Rightarrow> (string \<times> load_pc) list \<Rightarrow> message \<Rightarrow> 'a rt_state_scheme \<Rightarrow>
     message_pc \<times> 'a rt_state_scheme" where
  "resumeMessage pf cfg ls m s =
     (case point m of
        Awaiting \<Rightarrow>
          (case snd (ls ! loadTask m) of
             Loaded r \<Rightarrow> (Streaming (outputOf m r), s)
           | _ \<Rightarrow> (Awaiting, s))
      | Streaming Done \<Rightarrow> (Ended None, s)
      | Streaming (Fail e) \<Rightarrow> failMessage cfg m e s
      | Streaming Stuck \<Rightarrow> (Streaming Stuck, s)
      | Streaming (Yield out g) \<Rightarrow>
          (case natsPublish pf (replySubject cfg m) out of
             Some e \<Rightarrow> failMessage cfg m e s
           | None \<Rightarrow> (Streaming g, s\<lparr>published := published s @ [(replySubject cfg m, out)]\<rparr>))
      | Ended r \<Rightarrow> (Ended r, s))"

datatype message_event = Task task_event | Arrive string string bytes | Resume nat

type_synonym 'a messages = "'a rt_state_scheme \<times> refresh_task \<times> (string \<times> load_pc) list \<times> message list"

text \<open>
  A message arrives when the consumer of its function is free. No request id is used twice: the
  ingestor, which publishes the requests, draws eight random characters for each.
\<close>

inductive messageStep ::
    "platform \<Rightarrow> settings \<Rightarrow> 'a messages \<Rightarrow> message_event \<Rightarrow> 'a messages \<Rightarrow> bool"
  for pf :: platform and cfg :: settings
where
  other_task: "taskStep pf cfg False (s, r, ls) e (t, r', ls') \<Longrightarrow>
     messageStep pf cfg (s, r, ls, ms) (Task e) (t, r', ls', ms)"
| arrive: "\<forall>q \<in> set ms. callee q = name \<longrightarrow> (\<exists>err. point q = Ended err) \<Longrightarrow>
     m = \<lparr>callee = name, reqID = rid, payload = data, loadTask = length ls, point = Awaiting\<rparr> \<Longrightarrow>
     replySubject cfg m \<notin> replySubject cfg ` set ms \<Longrightarrow> replySubject cfg m \<notin> fst ` set (published s) \<Longrightarrow>
     messageStep pf cfg (s, r, ls, ms) (Arrive name rid data) (s, r, ls @ [(name, Lookup)], ms @ [m])"
| resume: "i < length ms \<Longrightarrow> resumeMessage pf cfg ls (ms ! i) s = (pc', t) \<Longrightarrow>
     messageStep pf cfg (s, r, ls, ms) (Resume i) (t, r, ls, ms[i := (ms ! i)\<lparr>point := pc'\<rparr>])"

inductive_cases other_taskE: "messageStep pf cfg x (Task e) y"
inductive_cases resumeE: "messageStep pf cfg x (Resume i) y"
inductive_simps arrive_simps: "messageStep pf cfg x (Arrive name rid data) y"

section \<open>Each message gets one output, whole and in order\<close>

definition sent :: "string \<Rightarrow> 'a rt_state_scheme \<Rightarrow> bytes list" where
  "sent x s = map snd (filter (\<lambda>p. fst p = x) (published s))"

lemma sent_append: "sent x (s\<lparr>published := published s @ [(y, out)]\<rparr>) = sent x s @ (if x = y then [out] else [])"
  by (simp add: sent_def)

text \<open>What has been sent for a message and what is still to come are the output of its load.\<close>

definition messageInv :: "settings \<Rightarrow> (string \<times> load_pc) list \<Rightarrow> 'a rt_state_scheme \<Rightarrow> message \<Rightarrow> bool" where
  "messageInv cfg ls s m \<longleftrightarrow>
     loadTask m < length ls \<and> fst (ls ! loadTask m) = callee m
     \<and> (case point m of
          Awaiting \<Rightarrow> sent (replySubject cfg m) s = []
        | Streaming g \<Rightarrow> (\<exists>r. snd (ls ! loadTask m) = Loaded r
            \<and> yields (outputOf m r) = sent (replySubject cfg m) s @ yields g \<and> ending (outputOf m r) = ending g)
        | Ended err \<Rightarrow> (\<exists>r. snd (ls ! loadTask m) = Loaded r
            \<and> yields (outputOf m r) = sent (replySubject cfg m) s \<and> ending (outputOf m r) = Some err))"

definition messagesInv :: "settings \<Rightarrow> 'a messages \<Rightarrow> bool" where
  "messagesInv cfg x \<longleftrightarrow> (case x of (s, r, ls, ms) \<Rightarrow>
     distinct (map (replySubject cfg) ms) \<and> (\<forall>m \<in> set ms. messageInv cfg ls s m))"

text \<open>A step of a load or refresh publishes nothing, and a load that has ended stays.\<close>

lemma keeps_published:
  fixes s :: "'a rt_state_scheme"
  assumes "refreshStep pf cfg pc s = (pc', t)"
  shows "published t = published s"
proof -
  have b: "osBlind (\<lambda>u :: 'a rt_state_scheme. published u = published s)" by (simp add: osBlind_def)
  have "keeps (\<lambda>u :: 'a rt_state_scheme. published u = published s) (finishSync pf cfg n)" for n
    unfolding finishSync_def
    by (intro keeps_andThen keeps_blind [OF b]) (simp add: keeps_def clearModuleCache_def modify_def)
  then show ?thesis
    by (intro refreshStep_keeps [where P = "\<lambda>u. published u = published s", OF assms refl])
      (auto intro: keeps_run [OF b] keeps_blind [OF b])
qed

lemma loadStep_published:
  fixes s :: "'a rt_state_scheme"
  assumes "loadStep pf name pc s = (pc', t)"
  shows "published t = published s"
proof -
  have "published t = published s" if "fn_state.more t = fn_state.more s" for t :: "'a rt_state_scheme"
    using that by (cases s; cases t) simp
  moreover have "fn_state.more t = fn_state.more s"
    using assms by (cases pc)
      (auto split: option.splits if_splits prod.splits sum.splits dest!: importModule_frame)
  ultimately show ?thesis by blast
qed

lemma taskStep_frame:
  fixes s :: "'a rt_state_scheme"
  assumes "taskStep pf cfg quiet (s, r, ls) e (t, r', ls')"
  shows "published t = published s" "length ls \<le> length ls'"
    "k < length ls \<Longrightarrow> fst (ls' ! k) = fst (ls ! k)"
    "k < length ls \<Longrightarrow> snd (ls ! k) = Loaded x \<Longrightarrow> ls' ! k = ls ! k"
proof -
  have "published t = published s \<and> length ls \<le> length ls' \<and>
      (k < length ls \<longrightarrow> fst (ls' ! k) = fst (ls ! k) \<and> (snd (ls ! k) = Loaded x \<longrightarrow> ls' ! k = ls ! k))"
    using assms
  proof cases
    case (step_refresh pc pc')
    then show ?thesis using keeps_published by auto
  next
    case (step_load i name pc pc')
    then show ?thesis using loadStep_published by (auto simp: nth_list_update)
  qed (auto simp: refreshBegin_def logInfo_def modify_def nth_append)
  then show "published t = published s" "length ls \<le> length ls'"
    "k < length ls \<Longrightarrow> fst (ls' ! k) = fst (ls ! k)"
    "k < length ls \<Longrightarrow> snd (ls ! k) = Loaded x \<Longrightarrow> ls' ! k = ls ! k" by blast+
qed

lemma messageInv_frame:
  assumes "messageInv cfg ls s m" and "sent (replySubject cfg m) t = sent (replySubject cfg m) s"
    and "length ls \<le> length ls'" and "\<And>k. k < length ls \<Longrightarrow> fst (ls' ! k) = fst (ls ! k)"
    and "\<And>k x. k < length ls \<Longrightarrow> snd (ls ! k) = Loaded x \<Longrightarrow> ls' ! k = ls ! k"
  shows "messageInv cfg ls' t m"
proof -
  have k: "loadTask m < length ls" using assms(1) by (simp add: messageInv_def)
  with assms show ?thesis by (auto simp: messageInv_def split: message_pc.splits)
qed

lemma resume_inv:
  assumes acc: "acceptsAll pf" and inv: "messageInv cfg ls s m" and run: "resumeMessage pf cfg ls m s = (pc', t)"
  shows "messageInv cfg ls t (m\<lparr>point := pc'\<rparr>)"
    and "x \<noteq> replySubject cfg m \<Longrightarrow> sent x t = sent x s"
proof -
  have simps: "outputOf (m\<lparr>point := pc'\<rparr>) r = outputOf m r" "replySubject cfg (m\<lparr>point := pc'\<rparr>) = replySubject cfg m" for r
    by (simp_all add: outputOf_def replySubject_def split: sum.split)
  have log: "sent y (s\<lparr>console := c\<rparr>) = sent y s" for y c by (simp add: sent_def)
  show "messageInv cfg ls t (m\<lparr>point := pc'\<rparr>)"
    using inv run acc unfolding messageInv_def simps
    by (auto simp: resumeMessage_def failMessage_def logError_def modify_def acceptsAll_def log sent_append
        split: message_pc.splits load_pc.splits gen.splits)
  show "sent x t = sent x s" if "x \<noteq> replySubject cfg m"
    using that run acc
    by (auto simp: resumeMessage_def failMessage_def logError_def modify_def acceptsAll_def log sent_append
        split: message_pc.splits load_pc.splits gen.splits)
qed

lemma messagesInv_step:
  assumes acc: "acceptsAll pf" and inv: "messagesInv cfg x" and step: "messageStep pf cfg x e y"
  shows "messagesInv cfg y"
  using step
proof cases
  case (other_task s r ls e' t r' ls' ms)
  note f = taskStep_frame [OF other_task(4)]
  have "sent x t = sent x s" for x using f(1) by (simp add: sent_def)
  with inv other_task(1,3) show ?thesis
    by (auto simp: messagesInv_def intro: messageInv_frame [OF _ _ f(2-4)])
next
  case (arrive ms name m rid data ls s r)
  have "sent (replySubject cfg m) s = []"
    using arrive(7) by (force simp: sent_def filter_empty_conv)
  then have "messageInv cfg (ls @ [(name, Lookup)]) s m" by (simp add: messageInv_def arrive(5))
  moreover have "messageInv cfg (ls @ [(name, Lookup)]) s q" if "q \<in> set ms" for q
    by (rule messageInv_frame [where ls = ls and s = s])
      (use inv arrive(1) that in \<open>auto simp: messagesInv_def nth_append\<close>)
  ultimately show ?thesis
    using inv arrive(1,3,6) by (auto simp: messagesInv_def)
next
  case (resume i ms ls s pc' t r)
  let ?m = "ms ! i"
  have m: "messageInv cfg ls s ?m" and d: "distinct (map (replySubject cfg) ms)"
    using inv resume(1,4) by (auto simp: messagesInv_def)
  note res = resume_inv [OF acc m resume(5)]
  have same: "map (replySubject cfg) (ms[i := ?m\<lparr>point := pc'\<rparr>]) = map (replySubject cfg) ms"
    using resume(4) by (simp add: map_update replySubject_def list_update_same_conv)
  have "messageInv cfg ls t (ms[i := ?m\<lparr>point := pc'\<rparr>] ! j)" if j: "j < length ms" for j
  proof (cases "j = i")
    case True
    with res(1) resume(4) show ?thesis by simp
  next
    case False
    have "replySubject cfg (ms ! j) \<noteq> replySubject cfg ?m"
      using d False j resume(4) by (simp add: distinct_conv_nth)
    from res(2) [OF this] have "messageInv cfg ls t (ms ! j)"
      by (intro messageInv_frame [where ls = ls and s = s and t = t])
        (use inv resume(1) j in \<open>auto simp: messagesInv_def\<close>)
    with False show ?thesis by simp
  qed
  then have "\<forall>m \<in> set (ms[i := ?m\<lparr>point := pc'\<rparr>]). messageInv cfg ls t m"
    by (auto simp: in_set_conv_nth)
  with d same resume(3) show ?thesis by (simp add: messagesInv_def)
qed

interpretation messages: inductive_invariant "messagesInv cfg" "messageStep pf cfg"
    "\<lambda>x. acceptsAll pf \<longrightarrow> messagesInv cfg x"
  for pf cfg
  by unfold_locales (auto intro: messagesInv_step)

section \<open>While no refresh begins\<close>

fun calmLoad :: "platform \<Rightarrow> 'a fn_state_scheme \<Rightarrow> string \<times> load_pc \<Rightarrow> bool" where
  "calmLoad pf s (n, Found b) \<longleftrightarrow> b = fsExists (files s) (functionPath pf n)"
| "calmLoad pf s (n, Importing url) \<longleftrightarrow>
     url = importURL (functionPath pf n) (moduleVersion s) \<and> fsExists (files s) (functionPath pf n)"
| "calmLoad pf s (n, Storing m) \<longleftrightarrow> loadUncached pf (files s) n = Inr m"
| "calmLoad pf s (n, Loaded r) \<longleftrightarrow> loadUncached pf (files s) n = r"
| "calmLoad pf s _ \<longleftrightarrow> True"

lemma calmLoad_frame:
  assumes "calmLoad pf s l" and "files t = files s" and "moduleVersion t = moduleVersion s"
  shows "calmLoad pf t l"
  using assms by (cases "(pf, s, l)" rule: calmLoad.cases) auto

lemma loadStep_calm:
  assumes fresh: "loaderFresh pf s" and l: "calmLoad pf s (n, pc)" and step: "loadStep pf n pc s = (pc', t)"
  shows "loaderFresh pf t \<and> calmLoad pf t (n, pc')"
proof (cases pc)
  case (Importing url)
  then have url: "url = importURL (functionPath pf n) (moduleVersion s)"
    and ex: "fsExists (files s) (functionPath pf n)" using l by simp_all
  obtain r u where i: "importModule pf url (functionPath pf n) s = (r, u)"
    by (cases "importModule pf url (functionPath pf n) s")
  have "r = loadUncached pf (files s) n" "loaderFresh pf u"
    using importModule_fresh [OF fresh ex i [unfolded url]] ex by (simp_all add: loadUncached_def)
  moreover have "files u = files s" using importModule_frame [OF i] by simp
  ultimately show ?thesis using step Importing i by (auto split: sum.splits)
next
  case (Storing m)
  with step l fresh show ?thesis by (auto simp: loaderFresh_def mapGet_set split: if_splits)
next
  case Lookup
  with step fresh show ?thesis by (auto simp: loaderFresh_def split: option.splits)
qed (use step l fresh in \<open>auto simp: loadUncached_def split: if_splits\<close>)

definition calmStep :: "platform \<Rightarrow> settings \<Rightarrow> 'a messages \<Rightarrow> message_event \<Rightarrow> 'a messages \<Rightarrow> bool" where
  "calmStep pf cfg x e y \<longleftrightarrow> messageStep pf cfg x e y \<and> e \<noteq> Task BeginRefresh"

definition calmInv :: "platform \<Rightarrow> fs \<Rightarrow> 'a messages \<Rightarrow> bool" where
  "calmInv pf disk x \<longleftrightarrow> (case x of (s, r, ls, ms) \<Rightarrow>
     r = Idle True \<and> files s = disk \<and> loaderFresh pf s \<and> (\<forall>l \<in> set ls. calmLoad pf s l))"

lemma calmInv_step:
  fixes x :: "'a messages"
  assumes inv: "calmInv pf disk x" and step: "calmStep pf cfg x e y"
  shows "calmInv pf disk y"
proof -
  from step have "messageStep pf cfg x e y" and nb: "e \<noteq> Task BeginRefresh" by (simp_all add: calmStep_def)
  from this(1) show ?thesis
  proof cases
    case (other_task s r ls e' t r' ls' ms)
    have s: "r = Idle True" "files s = disk" "loaderFresh pf s" "\<forall>l \<in> set ls. calmLoad pf s l"
      using inv other_task(1) by (simp_all add: calmInv_def)
    from other_task(4) have "r' = Idle True \<and> files t = disk \<and> loaderFresh pf t \<and> (\<forall>l \<in> set ls'. calmLoad pf t l)"
    proof cases
      case (step_load i name pc pc')
      have l: "calmLoad pf s (name, pc)" using s(4) step_load nth_mem by metis
      from step_load have st: "loadStep pf name pc s = (pc', t)" by simp
      note c = loadStep_calm [OF s(3) l st] and f = loadStep_frame [OF st]
      have "calmLoad pf t q" if "q \<in> set ls'" for q
      proof (cases "q = (name, pc')")
        case False
        with that step_load have "q \<in> set ls" using set_update_subset_insert by fastforce
        with s(4) calmLoad_frame [OF _ f] show ?thesis by blast
      qed (use c in simp)
      with c f(1) s(1,2) step_load show ?thesis by simp
    qed (use s nb other_task(2) in auto)
    then show ?thesis using other_task(3) by (simp add: calmInv_def)
  next
    case (arrive ms name m rid data ls s r)
    with inv show ?thesis by (auto simp: calmInv_def)
  next
    case (resume i ms ls s pc' t r)
    have "files t = files s \<and> modules t = modules s \<and> moduleVersion t = moduleVersion s
        \<and> importTable t = importTable s"
      using resume(5) by (auto simp: resumeMessage_def failMessage_def logError_def modify_def
          split: message_pc.splits load_pc.splits gen.splits option.splits)
    with inv resume(1,3) loaderFresh_frame [of pf s t] calmLoad_frame [of pf s _ t]
    show ?thesis by (auto simp: calmInv_def)
  qed
qed

interpretation calm: inductive_invariant "calmInv pf disk" "calmStep pf cfg" "calmInv pf disk"
  for pf disk cfg
  by unfold_locales (auto intro: calmInv_step)

lemma calm_reach:
  assumes "reach init (calmStep pf cfg) x"
  shows "reach init (messageStep pf cfg) x"
  using assms by (induction rule: reach.induct) (auto intro: reach_init reach_step simp: calmStep_def)

section \<open>One message alone\<close>

text \<open>The steps of one message, from its arrival, do what \<^verbatim>\<open>handleMessage\<close> does at once.\<close>

lemma reach_task:
  fixes s :: "'a rt_state_scheme"
  assumes "reach (\<lambda>z. z = (s0, r0, ls0)) (noBegin pf cfg False) (s, r, ls)"
    and "reach init (calmStep pf cfg) (s0, r0, ls0, ms)"
  shows "reach init (calmStep pf cfg) (s, r, ls, ms)"
  using assms(1)
proof (induction "(s, r, ls)" arbitrary: s r ls rule: reach.induct)
  case reach_init
  then show ?case using assms(2) by simp
next
  case (reach_step y e)
  obtain s1 r1 ls1 where y: "y = (s1, r1, ls1)" by (cases y) auto
  have "calmStep pf cfg (s1, r1, ls1, ms) (Task e) (s, r, ls, ms)"
    using reach_step(3) by (auto simp: noBegin_def calmStep_def y intro: other_task)
  with reach_step(2) [OF y] show ?case by (blast intro: reach.reach_step)
qed

lemma resume_one:
  assumes "reach init (calmStep pf cfg) (s, r, ls, [m])" and "resumeMessage pf cfg ls m s = (pc', t)"
  shows "reach init (calmStep pf cfg) (t, r, ls, [m\<lparr>point := pc'\<rparr>])"
proof -
  have "messageStep pf cfg (s, r, ls, [m]) (Resume 0) (t, r, ls, [m][0 := ([m] ! 0)\<lparr>point := pc'\<rparr>])"
    by (rule resume) (simp_all add: assms(2))
  then have "calmStep pf cfg (s, r, ls, [m]) (Resume 0) (t, r, ls, [m\<lparr>point := pc'\<rparr>])"
    by (simp add: calmStep_def)
  with assms(1) show ?thesis by (rule reach_step)
qed

lemma stream_alone:
  fixes s :: "'a rt_state_scheme"
  assumes "publishAll pf (replySubject cfg m) g s = (d, t)" and "d \<noteq> Waiting"
    and "reach init (calmStep pf cfg) (s, r, ls, [m\<lparr>point := Streaming g\<rparr>])"
  shows "reach init (calmStep pf cfg)
    (case d of Threw e \<Rightarrow> snd (failMessage cfg m e t) | _ \<Rightarrow> t, r, ls,
     [m\<lparr>point := Ended (case d of Threw e \<Rightarrow> Some e | _ \<Rightarrow> None)\<rparr>])"
  using assms
proof (induction g arbitrary: s)
  case (Yield out g)
  have rs: "replySubject cfg (m\<lparr>point := Streaming (Yield out g)\<rparr>) = replySubject cfg m"
    by (simp add: replySubject_def)
  show ?case
  proof (cases "natsPublish pf (replySubject cfg m) out")
    case None
    from resume_one [OF Yield.prems(3)] None rs
    have "reach init (calmStep pf cfg) (s\<lparr>published := published s @ [(replySubject cfg m, out)]\<rparr>, r, ls,
        [m\<lparr>point := Streaming g\<rparr>])" by (simp add: resumeMessage_def)
    from Yield.IH [OF _ Yield.prems(2) this] Yield.prems(1) None show ?thesis by simp
  next
    case (Some e)
    with resume_one [OF Yield.prems(3)] Yield.prems(1) rs show ?thesis
      by (auto simp: resumeMessage_def failMessage_def)
  qed
next
  case Done
  with resume_one [OF Done.prems(3)] show ?case by (auto simp: resumeMessage_def)
next
  case (Fail e)
  with resume_one [OF Fail.prems(3)] show ?case by (auto simp: resumeMessage_def failMessage_def)
qed simp

lemma message_alone:
  fixes s :: "'a rt_state_scheme"
  assumes run: "handleMessage pf cfg name (subject, data) s = (True, t)"
    and new: "resSubject cfg name (requestID subject) \<notin> fst ` set (published s)"
  shows "\<exists>m l err. reach (\<lambda>x. x = (s, ok, [], [])) (calmStep pf cfg) (t, ok, [l], [m])
    \<and> callee m = name \<and> reqID m = requestID subject \<and> payload m = data \<and> point m = Ended err"
proof -
  let ?R = "reach (\<lambda>x. x = (s, ok, [], [])) (calmStep pf cfg)"
  let ?m = "\<lparr>callee = name, reqID = requestID subject, payload = data, loadTask = 0, point = Awaiting\<rparr>"
  have i: "?R (s, ok, [], [])" by (rule reach_init) simp
  have "messageStep pf cfg (s, ok, [], []) (Arrive name (requestID subject) data)
      (s, ok, [] @ [(name, Lookup)], [] @ [?m])"
    by (rule arrive) (use new in \<open>simp_all add: replySubject_def\<close>)
  then have "calmStep pf cfg (s, ok, [], []) (Arrive name (requestID subject) data)
      (s, ok, [(name, Lookup)], [?m])" by (simp add: calmStep_def)
  with i have a: "?R (s, ok, [(name, Lookup)], [?m])" by (rule reach_step)
  obtain x u where l: "loadModule pf name s = (x, u)" by (cases "loadModule pf name s")
  then have "loadSteps pf name (5 + 0) Lookup s = (Loaded x, u)" unfolding load_steps_are_the_load by simp
  note load = this
  have "reach (\<lambda>z. z = (s, ok, [(name, Lookup)])) (noBegin pf cfg False) (s, ok, [(name, Lookup)])"
    by (rule reach_init) simp
  from reach_load [OF _ this load, of cfg False]
  have "reach (\<lambda>z. z = (s, ok, [(name, Lookup)])) (noBegin pf cfg False) (u, ok, [(name, Loaded x)])"
    by (simp add: noBegin_def)
  from reach_task [OF this a] have "?R (u, ok, [(name, Loaded x)], [?m])" .
  from resume_one [OF this] have b: "?R (u, ok, [(name, Loaded x)], [?m\<lparr>point := Streaming (outputOf ?m x)\<rparr>])"
    by (simp add: resumeMessage_def)
  have "invokeModule pf name (requestID subject) data None s = (outputOf ?m x, u)"
    using l by (simp add: invokeModule_def outputOf_def split: sum.splits)
  moreover obtain d v where p: "publishAll pf (replySubject cfg ?m) (outputOf ?m x) u = (d, v)"
    by (cases "publishAll pf (replySubject cfg ?m) (outputOf ?m x) u")
  ultimately have "d \<noteq> Waiting" and t: "t = (case d of Threw e \<Rightarrow> snd (failMessage cfg ?m e v) | _ \<Rightarrow> v)"
    using run by (cases d; simp add: handleMessage_def Let_def replySubject_def failMessage_def)+
  from stream_alone [OF p \<open>d \<noteq> Waiting\<close> b] show ?thesis
    unfolding t by (intro exI conjI) (assumption, simp_all)
qed

section \<open>Properties\<close>

lemma demo_answer:
  "answer demoPlatform demoFiles ''old'' [] = Yield (textEncode (textDecode [120])) Done"
proof -
  have "loadUncached demoPlatform demoFiles ''old'' = Inr (demoModule [120])"
    using demo_old_loads [of demoProc demoPlatform] by (simp add: demoPlatform_def)
  then show ?thesis
    by (simp add: answer_def invokeUncached_def runHandler_def demoModule_def settledChunks_def)
qed

lemma demo_message_run:
  "\<exists>t l m err. reach (\<lambda>x. x = (demoProc, Idle True, [], [])) (calmStep demoPlatform demoSettings) (t, Idle True, [l], [m])
    \<and> callee m = ''old'' \<and> replySubject demoSettings m = ''shop.old.res.ts.r7'' \<and> payload m = [] \<and> point m = Ended err"
proof -
  let ?msg = "(''shop.old.exec.ts.r7'', [])"
  have p: "project demoSettings = ''shop''" by (simp add: demoSettings_def)
  then have id: "requestID ''shop.old.exec.ts.r7'' = ''r7''"
    using requestID_exec [of demoSettings "''old''" "''r7''"] demo_functions(2) by simp
  obtain go t where h: "handleMessage demoPlatform demoSettings ''old'' ?msg demoProc = (go, t)"
    by (cases "handleMessage demoPlatform demoSettings ''old'' ?msg demoProc")
  have "acceptsAll demoPlatform" by (simp add: acceptsAll_def)
  from handleMessage_facts(2) [OF initial_fresh this h] have "go" by (simp add: answered_def demo_answer)
  with message_alone [of demoPlatform demoSettings "''old''" "''shop.old.exec.ts.r7''" "[]" demoProc t "Idle True"] h
  obtain m l err where
    "reach (\<lambda>x. x = (demoProc, Idle True, [], [])) (calmStep demoPlatform demoSettings) (t, Idle True, [l], [m])"
    "callee m = ''old''" "reqID m = ''r7''" "payload m = []" "point m = Ended err"
    unfolding id by auto
  moreover have "resSubject demoSettings ''old'' ''r7'' = ''shop.old.res.ts.r7''" by (simp add: resSubject_def p)
  ultimately show ?thesis unfolding replySubject_def by metis
qed

text \<open>
  However messages for any functions are interleaved with one another, with loads and with
  refreshes: when a message has been handled, what was published on its result subject is the
  output of one module, the one its own load brought, whole, in order and with nothing else in
  between, and it was logged as failed exactly if that output ends with an error.
\<close>

theorem each_message_gets_one_output:
  assumes "acceptsAll pf"
    and "reach (\<lambda>x. x = (s, Idle ok, [], [])) (messageStep pf cfg) (t, r, ls, ms)"
    and "m \<in> set ms" and "point m = Ended err"
  shows "\<exists>x. ls ! loadTask m = (callee m, Loaded x)
    \<and> sent (replySubject cfg m) t = yields (outputOf m x) \<and> ending (outputOf m x) = Some err"
proof -
  have "messagesInv cfg (s, Idle ok, [], [])" by (simp add: messagesInv_def)
  with messages.run_inv [OF _ assms(2)] assms(1) have "messagesInv cfg (t, r, ls, ms)" by blast
  then have "messageInv cfg ls t m" using assms(3) by (simp add: messagesInv_def)
  with assms(4) show ?thesis by (auto simp: messageInv_def prod_eq_iff)
qed

theorem each_message_gets_one_output_witness:
  "\<exists>t l m x. reach (\<lambda>x. x = (demoProc, Idle True, [], [])) (messageStep demoPlatform demoSettings) (t, Idle True, [l], [m])
    \<and> l = (''old'', Loaded x) \<and> sent ''shop.old.res.ts.r7'' t = yields (outputOf m x)"
proof -
  obtain t l m err where
    r: "reach (\<lambda>x. x = (demoProc, Idle True, [], [])) (calmStep demoPlatform demoSettings) (t, Idle True, [l], [m])"
    and m: "callee m = ''old''" "replySubject demoSettings m = ''shop.old.res.ts.r7''" "point m = Ended err"
    using demo_message_run by blast
  have i: "reach (\<lambda>x. x = (demoProc, Idle True, [], [])) (messageStep demoPlatform demoSettings) (t, Idle True, [l], [m])"
    by (rule calm_reach [OF r])
  have "messagesInv demoSettings (demoProc, Idle True, [], [])" by (simp add: messagesInv_def)
  with messages.run_inv [OF _ i] have "messagesInv demoSettings (t, Idle True, [l], [m])"
    by (simp add: acceptsAll_def)
  then have "loadTask m = 0" by (simp add: messagesInv_def messageInv_def)
  with each_message_gets_one_output [OF _ i _ m(3)] m i show ?thesis by (auto simp: acceptsAll_def)
qed

text \<open>
  As long as no refresh begins, every message that is handled to its end is answered, on the
  subject its caller waits on, with the output of the function's file on disk, whatever other
  messages and loads run at the same time.
\<close>

theorem concurrent_messages_are_answered:
  assumes "acceptsAll pf" and "loaderFresh pf s"
    and "reach (\<lambda>x. x = (s, Idle True, [], [])) (calmStep pf cfg) (t, r, ls, ms)"
    and "m \<in> set ms" and "point m = Ended err"
  shows "sent (replySubject cfg m) t = yields (answer pf (files s) (callee m) (payload m))
    \<and> ending (answer pf (files s) (callee m) (payload m)) = Some err"
proof -
  have "messagesInv cfg (s, Idle True, [], [])" by (simp add: messagesInv_def)
  with messages.run_inv [OF _ calm_reach [OF assms(3)]] assms(1) have "messagesInv cfg (t, r, ls, ms)" by blast
  then have m: "messageInv cfg ls t m" using assms(4) by (simp add: messagesInv_def)
  then obtain x where x: "loadTask m < length ls" "ls ! loadTask m = (callee m, Loaded x)"
    "yields (outputOf m x) = sent (replySubject cfg m) t" "ending (outputOf m x) = Some err"
    using assms(5) by (auto simp: messageInv_def prod_eq_iff)
  have "calmInv pf (files s) (s, Idle True, [], [])" using assms(2) by (simp add: calmInv_def)
  from calm.run_inv [OF this assms(3)] have "calmInv pf (files s) (t, r, ls, ms)" .
  then have "files t = files s" "calmLoad pf t (ls ! loadTask m)"
    using nth_mem [OF x(1)] by (simp_all add: calmInv_def)
  then have "loadUncached pf (files s) (callee m) = x" using x(2) by simp
  then have "outputOf m x = answer pf (files s) (callee m) (payload m)"
    by (simp add: outputOf_def answer_def invokeUncached_def split: sum.split)
  with x(3,4) show ?thesis by simp
qed

theorem concurrent_messages_are_answered_witness:
  "\<exists>t l m. reach (\<lambda>x. x = (demoProc, Idle True, [], [])) (calmStep demoPlatform demoSettings) (t, Idle True, [l], [m])
    \<and> sent ''shop.old.res.ts.r7'' t = [textEncode (textDecode [120])]"
proof -
  obtain t l m err where
    r: "reach (\<lambda>x. x = (demoProc, Idle True, [], [])) (calmStep demoPlatform demoSettings) (t, Idle True, [l], [m])"
    and m: "callee m = ''old''" "replySubject demoSettings m = ''shop.old.res.ts.r7''" "payload m = []" "point m = Ended err"
    using demo_message_run by blast
  have "acceptsAll demoPlatform" by (simp add: acceptsAll_def)
  from concurrent_messages_are_answered [OF this initial_fresh r _ m(4)] m demo_answer
  have "sent ''shop.old.res.ts.r7'' t = [textEncode (textDecode [120])]" by simp
  with r show ?thesis by blast
qed

end
