(* ===== verification/Rt_Spec.thy ===== *)
theory Rt_Spec
  imports Rt_Process
begin

text \<open>
  What the runtime is for, without files, caches and subscriptions: it serves a table of
  functions, which only a refresh replaces. The specification machine keeps that table and the
  messages published so far; after a failed refresh it promises nothing until the next success.
  The process refines it.
\<close>

section \<open>The specification\<close>

datatype served = Serving "string \<Rightarrow> bytes option" | Degraded

type_synonym spec_state = "served \<times> (string \<times> bytes) list"

text \<open>Running a function of the table.\<close>

definition specLoad :: "platform \<Rightarrow> (string \<Rightarrow> bytes option) \<Rightarrow> string \<Rightarrow> js_error + loaded_module" where
  "specLoad pf code name =
     (case code name of
        None \<Rightarrow> Inl (notFoundError pf name)
      | Some source \<Rightarrow> evalModule pf source)"

definition specRun ::
    "platform \<Rightarrow> (string \<Rightarrow> bytes option) \<Rightarrow> string \<Rightarrow> bytes \<Rightarrow> http_request option \<Rightarrow> bytes gen" where
  "specRun pf code name payload request =
     (case specLoad pf code name of
        Inl e \<Rightarrow> Fail e
      | Inr m \<Rightarrow> runHandler name m payload request)"

definition specReplies ::
    "platform \<Rightarrow> settings \<Rightarrow> (string \<Rightarrow> bytes option) \<Rightarrow> string \<Rightarrow> string \<times> bytes \<Rightarrow> (string \<times> bytes) list" where
  "specReplies pf cfg code name msg =
     map (Pair (resSubject cfg name (requestID (fst msg)))) (yields (specRun pf code name (snd msg) None))"

definition specResponse ::
    "string \<Rightarrow> bytes gen \<Rightarrow> http_response settled" where
  "specResponse name g =
     (case firstChunk g of
        Pending \<Rightarrow> Pending
      | Resolved first \<Rightarrow>
          Resolved \<lparr>status = 200, rspHeaders = [(''content-type'', ''application/json'')],
            rspBody = (case first of Some out \<Rightarrow> out | None \<Rightarrow> [])\<rparr>
      | Rejected err \<Rightarrow>
          if contains (err_string err) ''not found''
          then Resolved (textResponse (''function '' @ [CHR 0x27] @ name @ [CHR 0x27] @ '' not found'') 404)
          else Resolved (textResponse (err_string err) 500))"

text \<open>
  The table a refresh installs: the function files of the clone, on a disk that the last
  command of a refresh (\<^verbatim>\<open>git reset\<close> or \<^verbatim>\<open>git clone\<close>) has left with exit code 0.
\<close>

definition fileOf :: "node option \<Rightarrow> bytes option" where
  "fileOf entry = (case entry of Some (File b) \<Rightarrow> Some b | _ \<Rightarrow> None)"

definition cloneCode :: "settings \<Rightarrow> fs \<Rightarrow> string \<Rightarrow> bytes option" where
  "cloneCode cfg disk n =
     (if functionName n then fileOf (fsStat disk (pathKey (repoFunctionsPath cfg) @ [n @ ''.ts''])) else None)"

definition syncCommand :: "platform \<Rightarrow> settings \<Rightarrow> string list \<Rightarrow> bool" where
  "syncCommand pf cfg cmd \<longleftrightarrow>
     cmd = gitReset cfg ''origin/main'' \<or> cmd = gitReset cfg ''origin/master''
     \<or> (\<exists>url. repoURL pf cfg = Inr url \<and> cmd = gitClone cfg url)"

definition syncedDisk :: "platform \<Rightarrow> settings \<Rightarrow> fs \<Rightarrow> bool" where
  "syncedDisk pf cfg disk \<longleftrightarrow>
     (\<exists>cmd before out err. syncCommand pf cfg cmd \<and> spawnProc pf cmd before = (Exited 0 out err, disk))"

inductive specStep :: "platform \<Rightarrow> settings \<Rightarrow> spec_state \<Rightarrow> event \<Rightarrow> spec_state \<Rightarrow> bool"
  for pf :: platform and cfg :: settings
where
  spec_message: "code name \<noteq> None \<Longrightarrow>
     specStep pf cfg (Serving code, out) (FunctionMessage name msg)
       (Serving code, out @ specReplies pf cfg code name msg)"
| spec_request: "requestedName cfg req = name \<Longrightarrow> functionName name \<Longrightarrow>
     consumeBody req = (Inr body, req') \<Longrightarrow>
     r = specResponse name (specRun pf code name body (Some req')) \<Longrightarrow>
     specStep pf cfg (Serving code, out) (HttpRequest req r) (Serving code, out)"
| spec_unnamed: "requestedName cfg req = [] \<Longrightarrow>
     r = Resolved (textResponse ''function name not provided'' 400) \<Longrightarrow>
     specStep pf cfg (Serving code, out) (HttpRequest req r) (Serving code, out)"
| spec_bodyless: "requestedName cfg req \<noteq> [] \<Longrightarrow> consumeBody req = (Inl e, req') \<Longrightarrow>
     specStep pf cfg (Serving code, out) (HttpRequest req (Rejected e)) (Serving code, out)"
| spec_unspecified: "requestedName cfg req \<noteq> [] \<Longrightarrow> \<not> functionName (requestedName cfg req) \<Longrightarrow>
     specStep pf cfg (Serving code, out) (HttpRequest req r) (Serving code, out)"
| spec_refreshed: "syncedDisk pf cfg disk \<Longrightarrow>
     specStep pf cfg (v, out) (HookMessage msg) (Serving (cloneCode cfg disk), out)"
| spec_failed: "specStep pf cfg (v, out) (HookMessage msg) (Degraded, out)"
| degraded_message: "specStep pf cfg (Degraded, out) (FunctionMessage name msg)
       (Degraded, out @ map (Pair (resSubject cfg name (requestID (fst msg)))) bs)"
| degraded_request: "specStep pf cfg (Degraded, out) (HttpRequest req r) (Degraded, out)"

definition specInit :: "platform \<Rightarrow> settings \<Rightarrow> spec_state \<Rightarrow> bool" where
  "specInit pf cfg x \<longleftrightarrow> (\<exists>disk. syncedDisk pf cfg disk \<and> x = (Serving (cloneCode cfg disk), []))"

section \<open>The abstraction\<close>

definition codeOf :: "platform \<Rightarrow> 'a os_scheme \<Rightarrow> string \<Rightarrow> bytes option" where
  "codeOf pf s n =
     (if functionName n then fileOf (dirEntry (runtimeFunctionsPath pf) s (n @ ''.ts'')) else None)"

definition absState :: "platform \<Rightarrow> proc_state \<times> bool \<Rightarrow> spec_state" where
  "absState pf x = (if snd x then Serving (codeOf pf (fst x)) else Degraded, published (fst x))"

text \<open>No directory has the name of a function file: what a successful refresh ensures.\<close>

definition noDirs :: "platform \<Rightarrow> 'a os_scheme \<Rightarrow> bool" where
  "noDirs pf s \<longleftrightarrow>
     (\<forall>n. functionName n \<longrightarrow> dirEntry (runtimeFunctionsPath pf) s (n @ ''.ts'') \<noteq> Some Dir)"

lemma codeOf_frame: "files t = files s \<Longrightarrow> codeOf pf t = codeOf pf s"
  by (simp add: codeOf_def dirEntry_def fun_eq_iff)

lemma noDirs_frame: "files t = files s \<Longrightarrow> noDirs pf t = noDirs pf s"
  by (simp add: noDirs_def dirEntry_def)

lemma fileOf_None: "fileOf x \<noteq> Some b \<longleftrightarrow> x \<noteq> Some (File b)"
  by (simp add: fileOf_def split: option.splits node.splits)

lemma codeOf_onDisk: "noDirs pf s \<Longrightarrow> codeOf pf s n \<noteq> None \<longleftrightarrow> onDisk pf s n"
  by (auto simp: codeOf_def onDisk_def noDirs_def fileOf_def split: option.splits node.splits)

lemma specLoad_codeOf:
  "installed pf \<Longrightarrow> noDirs pf s \<Longrightarrow> functionName name \<Longrightarrow>
     specLoad pf (codeOf pf s) name = loadUncached pf (files s) name"
  by (auto simp: specLoad_def codeOf_def loadUncached_entry noDirs_def fileOf_def split: option.splits node.splits)

lemma specRun_codeOf:
  "installed pf \<Longrightarrow> noDirs pf s \<Longrightarrow> functionName name \<Longrightarrow>
     specRun pf (codeOf pf s) name payload request = invokeUncached pf (files s) name payload request"
  by (simp add: specRun_def invokeUncached_def specLoad_codeOf)

section \<open>What a refresh installs\<close>

lemma run_disk: "run pf cmd s = (Inr u, t) \<Longrightarrow> \<exists>out err. spawnProc pf cmd (files s) = (Exited 0 out err, files t)"
  by (auto simp: run_def Let_def split: prod.splits spawn_result.splits if_splits)

lemma syncCommand_intros [intro]:
  "syncCommand pf cfg (gitReset cfg ''origin/main'')"
  "syncCommand pf cfg (gitReset cfg ''origin/master'')"
  "repoURL pf cfg = Inr url \<Longrightarrow> syncCommand pf cfg (gitClone cfg url)"
  by (simp_all add: syncCommand_def)

lemma syncRepo_disk:
  fixes s :: "'a os_scheme"
  assumes "syncRepo pf cfg s = (Inr u, t)"
  shows "syncedDisk pf cfg (files t)"
proof -
  have "\<exists>cmd s'. syncCommand pf cfg cmd \<and> run pf cmd (s' :: 'a os_scheme) = (Inr (), t)"
    using assms unfolding syncRepo_def
    by (auto 4 4 elim!: andThen_okE simp: tryCatch_def fromResult_def ret_def throw_def
        split: if_splits prod.splits sum.splits)
  then show ?thesis using run_disk unfolding syncedDisk_def by blast
qed

lemma refresh_table:
  assumes inst: "installed pf" and tidy: "commandsTidy pf" and inv: "serviceInv cfg s"
    and run: "syncRepoAndReload pf cfg s = (Inr u, t)"
  shows "\<exists>disk. syncedDisk pf cfg disk \<and> codeOf pf t = cloneCode cfg disk" and "noDirs pf t"
proof -
  have "fsInv (files s)" "loaderInv s" using inv by (simp_all add: serviceInv_def)
  from refresh_okE [OF run tidy this] obtain s' s0 w where
    sy: "syncRuntimeFunctionsDir pf cfg (repoFunctionsPath cfg) s' = (Inr u, t)"
    and s': "fsInv (files s')" and d: "syncRepo pf cfg s0 = (Inr w, s')" by blast
  note m = sync_Inr(2) [OF inst s' repoFunctionsPath_key(1) source_neq_runtime [OF inst] sy]
  have "codeOf pf t = cloneCode cfg (files s')"
    by (simp add: codeOf_def cloneCode_def m fun_eq_iff)
  with syncRepo_disk [OF d] show "\<exists>disk. syncedDisk pf cfg disk \<and> codeOf pf t = cloneCode cfg disk" by blast
  show "noDirs pf t"
    using sync_no_dir [OF inst s' repoFunctionsPath_key(1) source_neq_runtime [OF inst] sy]
    by (simp add: noDirs_def)
qed

lemma reconcile_files:
  assumes "serviceInv cfg s" and "reconcileConsumers pf cfg s = (x, t)"
  shows "files t = files s"
  using restPartD(1) [OF reconcile_keeps(3) [OF _ _ assms(2)]] assms(1) by (simp add: serviceInv_def)

definition specInv :: "platform \<Rightarrow> settings \<Rightarrow> proc_state \<times> bool \<Rightarrow> bool" where
  "specInv pf cfg x \<longleftrightarrow> processInv pf cfg x \<and> (snd x \<longrightarrow> noDirs pf (fst x))"

lemma hook_table:
  fixes s :: "'a rt_state_scheme"
  assumes inst: "installed pf" and tidy: "commandsTidy pf" and inv: "serviceInv cfg s"
    and run: "handleHook pf cfg msg s = (r, t)" and log: "refreshLogged cfg t"
  shows "\<exists>disk. syncedDisk pf cfg disk \<and> codeOf pf t = cloneCode cfg disk" and "noDirs pf t"
proof -
  obtain s0 s1 s2 :: "'a rt_state_scheme" where s0: "serviceInv cfg s0" and sy: "syncRepoAndReload pf cfg s0 = (Inr (), s1)"
    and rc: "reconcileConsumers pf cfg s1 = (Inr (), s2)" and t: "files t = files s2"
    by (rule handleHook_logged [OF inv run log])
  have "files t = files s1"
    using reconcile_files [OF keepsD [OF refresh_inv [OF tidy] s0 sy] rc] t by simp
  with refresh_table [OF inst tidy s0 sy] codeOf_frame [of t s1 pf] noDirs_frame [of t s1 pf]
  show "\<exists>disk. syncedDisk pf cfg disk \<and> codeOf pf t = cloneCode cfg disk" "noDirs pf t" by simp_all
qed

section \<open>The simulation\<close>

lemma sim_message:
  assumes inst: "installed pf" and acc: "acceptsAll pf" and inv: "specInv pf cfg (s, ok)"
    and get: "mapGet (consumers s) name = Some i" and run: "handleMessage pf cfg name msg s = (go, t)"
  shows "specStep pf cfg (absState pf (s, ok)) (FunctionMessage name msg) (absState pf (t, ok))"
proof (cases ok)
  case False
  then show ?thesis
    using handleMessage_frame(5) [OF run] by (auto simp: absState_def intro: degraded_message)
next
  case True
  have up: "upToDate pf cfg s" and cons: "consumersInv cfg s"
    and nodir: "noDirs pf s"
    using inv True by (simp_all add: specInv_def processInv_def serviceInv_def)
  then have fresh: "loaderFresh pf s" by (simp add: upToDate_def)
  have "liveOn s (execSubject cfg name) = 1" using liveOn_exec [OF cons, of name] get by simp
  then have disk: "onDisk pf s name" using up by (auto simp: upToDate_def split: if_splits)
  then have name: "functionName name" by (simp add: onDisk_def)
  note f = handleMessage_facts [OF fresh acc run]
  have "replies pf cfg (files s) name msg = specReplies pf cfg (codeOf pf s) name msg"
    by (simp add: replies_def specReplies_def answer_def specRun_codeOf [OF inst nodir name])
  moreover have "codeOf pf t = codeOf pf s" by (rule codeOf_frame [OF f(4)])
  ultimately show ?thesis
    using True spec_message [of "codeOf pf s" name pf cfg "published s" msg] disk f(1)
      codeOf_onDisk [OF nodir, of name]
    by (simp add: absState_def del: not_None_eq)
qed

lemma sim_request:
  assumes inst: "installed pf" and inv: "specInv pf cfg (s, ok)"
    and run: "handleSyncRequest pf cfg req s = (r, t)"
  shows "specStep pf cfg (absState pf (s, ok)) (HttpRequest req r) (absState pf (t, ok))"
proof -
  note f = handleSyncRequest_frame [OF run]
  have c: "codeOf pf t = codeOf pf s" by (rule codeOf_frame [OF f(1)])
  show ?thesis
  proof (cases ok)
    case False
    then show ?thesis using f(3) by (simp add: absState_def degraded_request)
  next
    case True
    let ?n = "requestedName cfg req"
    have a: "absState pf (s, ok) = (Serving (codeOf pf s), published s)"
      "absState pf (t, ok) = (Serving (codeOf pf s), published s)"
      using True f(3) c by (simp_all add: absState_def)
    obtain x q where body: "consumeBody req = (x, q)" by (cases "consumeBody req")
    show ?thesis
    proof (cases "functionName ?n")
      case False
      show ?thesis
        unfolding a using False handleSyncRequest_unnamed [of cfg req pf s] run
        by (cases "?n = []") (auto intro: spec_unnamed spec_unspecified)
    next
      case name: True
      then have ne: "?n \<noteq> []" by (rule functionName_free(3))
      show ?thesis
      proof (cases x)
        case (Inl e)
        then have "r = Rejected e" using run ne body by (simp add: handleSyncRequest_def Let_def)
        with Inl body ne show ?thesis unfolding a by (auto intro: spec_bodyless)
      next
        case (Inr b)
        have fresh: "loaderFresh pf s" and nodir: "noDirs pf s"
          using inv True by (simp_all add: specInv_def processInv_def upToDate_def)
        from handleSyncRequest_fresh [OF fresh ne body [unfolded Inr]] run
        have "r = specResponse ?n (specRun pf (codeOf pf s) ?n b (Some q))"
          by (simp add: specResponse_def syncChunk_def specRun_codeOf [OF inst nodir name])
        from spec_request [OF refl name body [unfolded Inr] this] show ?thesis unfolding a .
      qed
    qed
  qed
qed

lemma sim_hook:
  assumes inst: "installed pf" and tidy: "commandsTidy pf" and inv: "specInv pf cfg (s, ok)"
    and run: "handleHook pf cfg msg s = (r, t)"
  shows "specStep pf cfg (absState pf (s, ok)) (HookMessage msg) (absState pf (t, refreshLogged cfg t))"
proof -
  have s: "serviceInv cfg s" using inv by (simp add: specInv_def processInv_def)
  with keepsD [OF keeps_hookPart [OF tidy] _ run] have "hookPart cfg t = hookPart cfg s" by blast
  then have p: "published t = published s" by (simp add: hookPart_def)
  show ?thesis
  proof (cases "refreshLogged cfg t")
    case True
    obtain disk where "syncedDisk pf cfg disk" "codeOf pf t = cloneCode cfg disk"
      using hook_table(1) [OF inst tidy s run True] by blast
    with True p show ?thesis by (simp add: absState_def spec_refreshed)
  qed (simp add: absState_def p spec_failed)
qed

lemma boot_published:
  assumes "main pf cfg (initialState fs) = (Inr u, t)"
  shows "published t = []"
proof -
  let ?P = "\<lambda>s :: proc_state. published s = []"
  have b: "osBlind ?P" by (simp add: osBlind_def)
  have k: "keeps ?P clearModuleCache" "keeps ?P (subscribe pf x)" "keeps ?P (unsubscribe i)"
    "keeps ?P (modify (\<lambda>s. s\<lparr>consumers := c s\<rparr>))" "keeps ?P (modify (\<lambda>s. s\<lparr>listening := l\<rparr>))" for x i c l
    by (auto simp: keeps_def clearModuleCache_def subscribe_def unsubscribe_def modify_def split: option.splits)
  have "keeps ?P (syncRepoAndReload pf cfg)" by (rule keeps_refresh(2) [OF b k(1)])
  moreover have "keeps ?P (reconcileConsumers pf cfg)"
    unfolding reconcileConsumers_def dropConsumers_def startConsumers_def cancelConsumer_def
      consumeFunction_def Let_def
    by (intro keeps_rules b k | simp)+
  ultimately have "keeps ?P (main pf cfg)"
    unfolding main_def watchTSHook_def ensureRuntimeDir_def serve_def Let_def
    by (intro keeps_rules b k | simp)+
  from keepsD [OF this _ assms] show ?thesis by (simp add: initialState_def)
qed

lemma main_table:
  assumes inst: "installed pf" and tidy: "commandsTidy pf" and inv: "serviceInv cfg s"
    and run: "main pf cfg s = (Inr u, t)"
  shows "\<exists>disk. syncedDisk pf cfg disk \<and> codeOf pf t = cloneCode cfg disk" and "noDirs pf t"
proof -
  from run obtain s1 a s2 s3 s4 s5 s6 where
    e: "ensureRuntimeDir pf s = (Inr (), s1)" and n: "appStateNew pf cfg s1 = (Inr a, s2)"
    and y: "syncRepoAndReload pf cfg s2 = (Inr (), s3)" and r: "reconcileConsumers pf cfg s3 = (Inr (), s4)"
    and w: "watchTSHook pf cfg s4 = (Inr (), s5)" and v: "serve pf cfg s5 = (Inr (), s6)"
    and l: "logInfo ''bun runtime listening''
       [(''project'', project cfg), (''port'', showInt (httpPort cfg))] s6 = (Inr u, t)"
    unfolding main_def by (auto elim!: andThen_okE)
  have s2: "serviceInv cfg s2"
    using ensure_app_inv(1) [OF inv, of pf] ensure_app_inv(2) [of cfg s1 pf] e n by simp
  have s3: "serviceInv cfg s3" by (rule keepsD [OF refresh_inv [OF tidy] s2 y])
  have "files s4 = files s3" by (rule reconcile_files [OF s3 r])
  moreover have "files s5 = files s4"
    using w by (auto simp: watchTSHook_cases Let_def split: option.splits)
  moreover have "files t = files s5"
    using v l by (auto simp: serve_def logInfo_def modify_def attempt_def andThen_def ret_def throw_def
        split: option.splits)
  ultimately have "files t = files s3" by simp
  with refresh_table [OF inst tidy s2 y] codeOf_frame [of t s3 pf] noDirs_frame [of t s3 pf]
  show "\<exists>disk. syncedDisk pf cfg disk \<and> codeOf pf t = cloneCode cfg disk" "noDirs pf t" by simp_all
qed

lemma specInv_step:
  assumes inst: "installed pf" and tidy: "commandsTidy pf" and inv: "specInv pf cfg x"
    and step: "processStep pf cfg x e y"
  shows "specInv pf cfg y"
proof -
  have "noDirs pf (fst y)" if "snd y"
    using step
  proof cases
    case (on_message s name i msg go t ok)
    with inv that noDirs_frame [OF handleMessage_frame(1) [OF on_message(5)], of pf]
    show ?thesis by (simp add: specInv_def)
  next
    case (on_request req s r t ok)
    with inv that noDirs_frame [OF handleSyncRequest_frame(1) [OF on_request(4)], of pf]
    show ?thesis by (simp add: specInv_def)
  next
    case (on_hook msg s r t ok)
    have "serviceInv cfg s" using inv on_hook(1) by (simp add: specInv_def processInv_def)
    from hook_table(2) [OF inst tidy this on_hook(4)] on_hook(3) that show ?thesis by simp
  qed
  with processInv_step [OF inst tidy _ step] inv show ?thesis by (simp add: specInv_def)
qed

lemma booted_spec:
  assumes "installed pf" and "commandsTidy pf" and "fsInv fs" and "booted pf cfg fs x"
  shows "specInv pf cfg x" and "specInit pf cfg (absState pf x)"
proof -
  have ok: "main pf cfg (initialState fs) = (Inr (), fst x)" "snd x" using assms(4) by (simp_all add: booted_def)
  note m = main_table [OF assms(1,2) initial_serviceInv [OF assms(3)] ok(1)]
  show "specInv pf cfg x" using booted_inv [OF assms] m(2) by (simp add: specInv_def)
  show "specInit pf cfg (absState pf x)"
    using m(1) ok(2) boot_published [OF ok(1)] by (auto simp: specInit_def absState_def)
qed

interpretation refinement: simulation "booted pf cfg fs" "processStep pf cfg"
    "\<lambda>x. installed pf \<and> commandsTidy pf \<and> fsInv fs \<longrightarrow> specInv pf cfg x"
    "specInit pf cfg" "specStep pf cfg" "absState pf"
    "installed pf \<and> commandsTidy pf \<and> fsInv fs \<and> acceptsAll pf"
  for pf cfg fs
proof unfold_locales
  fix x assume "booted pf cfg fs x"
  then show "installed pf \<and> commandsTidy pf \<and> fsInv fs \<longrightarrow> specInv pf cfg x"
    by (blast intro: booted_spec(1))
next
  fix x e y
  assume "installed pf \<and> commandsTidy pf \<and> fsInv fs \<longrightarrow> specInv pf cfg x" and "processStep pf cfg x e y"
  then show "installed pf \<and> commandsTidy pf \<and> fsInv fs \<longrightarrow> specInv pf cfg y"
    by (blast intro: specInv_step)
next
  fix x assume "installed pf \<and> commandsTidy pf \<and> fsInv fs \<and> acceptsAll pf" and "booted pf cfg fs x"
  then show "specInit pf cfg (absState pf x)" by (blast intro: booted_spec(2))
next
  fix x e y
  assume c: "installed pf \<and> commandsTidy pf \<and> fsInv fs \<and> acceptsAll pf"
    and i: "installed pf \<and> commandsTidy pf \<and> fsInv fs \<longrightarrow> specInv pf cfg x"
    and st: "processStep pf cfg x e y"
  from c i have inv: "specInv pf cfg x" by blast
  from st show "specStep pf cfg (absState pf x) e (absState pf y)"
  proof cases
    case (on_message s name i msg go t ok)
    with sim_message c inv show ?thesis by blast
  next
    case (on_hook msg s r t ok)
    with sim_hook c inv show ?thesis by blast
  next
    case (on_request req s r t ok)
    with sim_request c inv show ?thesis by blast
  qed
qed

end
