(* ===== verification/Rt_Loop.thy ===== *)
theory Rt_Loop
  imports Rt_Hook Rt_Messages Rt_Spec
begin

text \<open>
  The event loop of the process after its boot: the hook's task, one task per message that a
  consumer is handling, one task per HTTP request, and one per load they wait for. Between two
  \<^verbatim>\<open>await\<close>s of a task any other may run, so a step of the relation is one task's code from one
  \<^verbatim>\<open>await\<close> to the next, or the arrival of something for it to do.
\<close>

section \<open>Answering a request\<close>

text \<open>What \<^verbatim>\<open>handleSyncRequest\<close> does with the output of the invocation.\<close>

definition respond ::
    "settings \<Rightarrow> string \<Rightarrow> bytes gen \<Rightarrow> 'a os_scheme \<Rightarrow> http_response settled \<times> 'a os_scheme" where
  "respond cfg name g s =
     (case firstChunk g of
        Pending \<Rightarrow> (Pending, s)
      | Resolved first \<Rightarrow>
          (Resolved \<lparr>status = 200, rspHeaders = [(''content-type'', ''application/json'')],
             rspBody = (case first of Some out \<Rightarrow> out | None \<Rightarrow> [])\<rparr>, s)
      | Rejected err \<Rightarrow>
          if contains (err_string err) ''not found'' then
            (Resolved (textResponse
               (''function '' @ [CHR 0x27] @ name @ [CHR 0x27] @ '' not found'') 404), s)
          else
            (Resolved (textResponse (err_string err) 500),
             snd (logError ''sync invoke failed''
               [(''project'', project cfg), (''function'', name), (''error'', err_string err)] s)))"

lemma handleSyncRequest_respond:
  assumes "requestedName cfg req \<noteq> []" and "consumeBody req = (Inr body, req')"
  shows "handleSyncRequest pf cfg req s =
    (case invokeModule pf (requestedName cfg req) [] body (Some req') s of
       (g, t) \<Rightarrow> respond cfg (requestedName cfg req) g t)"
  using assms by (simp add: handleSyncRequest_def respond_def Let_def)

lemma respond_response: "fst (respond cfg name g s) = specResponse name g"
  by (simp add: respond_def specResponse_def split: settled.split)

lemma respond_state: "\<exists>c. snd (respond cfg name g s) = s\<lparr>console := c\<rparr>"
proof -
  have "\<exists>c. s = s\<lparr>console := c\<rparr>" by (rule exI [of _ "console s"]) simp
  then show ?thesis by (auto simp: respond_def logError_def modify_def split: settled.split)
qed

section \<open>The state of the loop\<close>

text \<open>
  A request waits for its load, with the body that was read and the request object the handler
  will get, or it has its answer (which may be that the handler never answers).
\<close>

datatype request_pc = LoadingFor bytes http_request | Answered "http_response settled"

record request_task =
  httpRequest :: http_request
  ownLoad :: nat  \<comment> \<open>which of the loads is its own, if it has one\<close>
  requestPc :: request_pc

text \<open>
  The hook's messages are a list with a cursor: those from \<open>hookTaken\<close> on wait for the loop.
  A message being handled carries the subscription that delivered it.
\<close>

record event_loop =
  mem :: proc_state
  hookInbox :: "(string \<times> bytes) list"
  hookTaken :: nat
  hookAt :: hook_pc
  loadTasks :: "(string \<times> load_pc) list"
  messageTasks :: "(nat \<times> message) list"
  requestTasks :: "request_task list"

section \<open>The steps of each task\<close>

definition hookBusy :: "event_loop \<Rightarrow> bool" where
  "hookBusy x \<longleftrightarrow> \<not> hookIdle (hookAt x) \<or> hookTaken x < length (hookInbox x)"

definition moveHook :: "platform \<Rightarrow> settings \<Rightarrow> event_loop \<Rightarrow> event_loop" where
  "moveHook pf cfg x =
     (if \<not> hookIdle (hookAt x) then
        (case hookStep pf cfg (hookAt x) (mem x) of (h, s) \<Rightarrow> x\<lparr>mem := s, hookAt := h\<rparr>)
      else if hookTaken x < length (hookInbox x) then
        (case takeHook cfg (hookInbox x ! hookTaken x) (mem x) of
           (h, s) \<Rightarrow> x\<lparr>mem := s, hookAt := h, hookTaken := Suc (hookTaken x)\<rparr>)
      else x)"

definition acceptMessage :: "string \<Rightarrow> nat \<Rightarrow> string \<times> bytes \<Rightarrow> event_loop \<Rightarrow> event_loop" where
  "acceptMessage name sid msg x =
     x\<lparr>loadTasks := loadTasks x @ [(name, Lookup)],
       messageTasks := messageTasks x @ [(sid,
         \<lparr>callee = name, reqID = requestID (fst msg), payload = snd msg,
          loadTask = length (loadTasks x), point = Awaiting\<rparr>)]\<rparr>"

text \<open>\<^verbatim>\<open>handleSyncRequest\<close> up to the load of the module, or to its answer without one.\<close>

definition acceptRequest :: "settings \<Rightarrow> http_request \<Rightarrow> event_loop \<Rightarrow> event_loop" where
  "acceptRequest cfg req x =
     (let name = requestedName cfg req;
          task = (\<lambda>pc. \<lparr>httpRequest = req, ownLoad = length (loadTasks x), requestPc = pc\<rparr>)
      in if name = [] then
           x\<lparr>requestTasks := requestTasks x
             @ [task (Answered (Resolved (textResponse ''function name not provided'' 400)))]\<rparr>
         else
           (case consumeBody req of
              (Inl e, req') \<Rightarrow> x\<lparr>requestTasks := requestTasks x @ [task (Answered (Rejected e))]\<rparr>
            | (Inr body, req') \<Rightarrow>
                x\<lparr>loadTasks := loadTasks x @ [(name, Lookup)],
                  requestTasks := requestTasks x @ [task (LoadingFor body req')]\<rparr>))"

definition moveLoad :: "platform \<Rightarrow> nat \<Rightarrow> event_loop \<Rightarrow> event_loop" where
  "moveLoad pf i x =
     (case loadTasks x ! i of
        (name, pc) \<Rightarrow>
          (case loadStep pf name pc (mem x) of
             (pc', s) \<Rightarrow> x\<lparr>mem := s, loadTasks := (loadTasks x)[i := (name, pc')]\<rparr>))"

definition moveMessage :: "platform \<Rightarrow> settings \<Rightarrow> nat \<Rightarrow> event_loop \<Rightarrow> event_loop" where
  "moveMessage pf cfg i x =
     (case messageTasks x ! i of
        (sid, m) \<Rightarrow>
          (case resumeMessage pf cfg (loadTasks x) m (mem x) of
             (pc, s) \<Rightarrow> x\<lparr>mem := s, messageTasks := (messageTasks x)[i := (sid, m\<lparr>point := pc\<rparr>)]\<rparr>))"

definition requestOutput :: "settings \<Rightarrow> http_request \<Rightarrow> bytes \<Rightarrow> http_request \<Rightarrow> js_error + loaded_module \<Rightarrow> bytes gen" where
  "requestOutput cfg req body req' r =
     (case r of Inl e \<Rightarrow> Fail e | Inr md \<Rightarrow> runHandler (requestedName cfg req) md body (Some req'))"

definition moveRequest :: "settings \<Rightarrow> nat \<Rightarrow> event_loop \<Rightarrow> event_loop" where
  "moveRequest cfg i x =
     (let q = requestTasks x ! i in
      case (requestPc q, snd (loadTasks x ! ownLoad q)) of
        (LoadingFor body req', Loaded r) \<Rightarrow>
          (case respond cfg (requestedName cfg (httpRequest q))
                  (requestOutput cfg (httpRequest q) body req' r) (mem x) of
             (a, s) \<Rightarrow> x\<lparr>mem := s, requestTasks := (requestTasks x)[i := q\<lparr>requestPc := Answered a\<rparr>]\<rparr>)
      | _ \<Rightarrow> x)"

text \<open>Which tasks can go on: what they wait for is there.\<close>

fun isLoaded :: "load_pc \<Rightarrow> bool" where
  "isLoaded (Loaded r) = True"
| "isLoaded _ = False"

definition messageReady :: "(string \<times> load_pc) list \<Rightarrow> message \<Rightarrow> bool" where
  "messageReady ls m =
     (case point m of
        Awaiting \<Rightarrow> isLoaded (snd (ls ! loadTask m))
      | Streaming g \<Rightarrow> g \<noteq> Stuck
      | Ended r \<Rightarrow> False)"

definition requestReady :: "(string \<times> load_pc) list \<Rightarrow> request_task \<Rightarrow> bool" where
  "requestReady ls q =
     (case requestPc q of
        LoadingFor body req' \<Rightarrow> isLoaded (snd (ls ! ownLoad q))
      | Answered a \<Rightarrow> False)"

section \<open>The relation\<close>

datatype loop_event =
    HookArrives "string \<times> bytes" | HookMoves
  | MessageArrives string "string \<times> bytes" | MessageMoves nat
  | RequestArrives http_request | RequestMoves nat
  | LoadMoves nat

fun hookClearing :: "hook_pc \<Rightarrow> bool" where
  "hookClearing (Syncing pc) = isClearing pc"
| "hookClearing _ = False"

text \<open>
  A message is delivered to a running consumer whose earlier message has been handled. With
  \<open>quiet\<close>, only the runs in which no load is in flight at the moment the cache is cleared.
\<close>

inductive loopStep ::
    "platform \<Rightarrow> settings \<Rightarrow> bool \<Rightarrow> event_loop \<Rightarrow> loop_event \<Rightarrow> event_loop \<Rightarrow> bool"
  for pf :: platform and cfg :: settings and quiet :: bool
where
  hook_arrives: "loopStep pf cfg quiet x (HookArrives msg) (x\<lparr>hookInbox := hookInbox x @ [msg]\<rparr>)"
| hook_moves: "hookBusy x \<Longrightarrow>
     (quiet \<Longrightarrow> hookClearing (hookAt x) \<Longrightarrow> \<forall>(n, q) \<in> set (loadTasks x). \<not> inFlight q) \<Longrightarrow>
     loopStep pf cfg quiet x HookMoves (moveHook pf cfg x)"
| message_arrives: "mapGet (consumers (mem x)) name = Some sid \<Longrightarrow>
     \<forall>(i, q) \<in> set (messageTasks x). i = sid \<longrightarrow> (\<exists>r. point q = Ended r) \<Longrightarrow>
     loopStep pf cfg quiet x (MessageArrives name msg) (acceptMessage name sid msg x)"
| message_moves: "i < length (messageTasks x) \<Longrightarrow> messageReady (loadTasks x) (snd (messageTasks x ! i)) \<Longrightarrow>
     loopStep pf cfg quiet x (MessageMoves i) (moveMessage pf cfg i x)"
| request_arrives: "loopStep pf cfg quiet x (RequestArrives req) (acceptRequest cfg req x)"
| request_moves: "i < length (requestTasks x) \<Longrightarrow> requestReady (loadTasks x) (requestTasks x ! i) \<Longrightarrow>
     loopStep pf cfg quiet x (RequestMoves i) (moveRequest cfg i x)"
| load_moves: "i < length (loadTasks x) \<Longrightarrow> \<not> isLoaded (snd (loadTasks x ! i)) \<Longrightarrow>
     loopStep pf cfg quiet x (LoadMoves i) (moveLoad pf i x)"

inductive_simps hook_moves_simps: "loopStep pf cfg quiet x HookMoves y"
inductive_simps message_arrives_simps: "loopStep pf cfg quiet x (MessageArrives name msg) y"
inductive_simps message_moves_simps: "loopStep pf cfg quiet x (MessageMoves i) y"
inductive_simps request_moves_simps: "loopStep pf cfg quiet x (RequestMoves i) y"
inductive_simps load_moves_simps: "loopStep pf cfg quiet x (LoadMoves i) y"

text \<open>The loop starts when the boot has succeeded.\<close>

definition loopStart :: "platform \<Rightarrow> settings \<Rightarrow> fs \<Rightarrow> event_loop \<Rightarrow> bool" where
  "loopStart pf cfg fs x \<longleftrightarrow>
     main pf cfg (initialState fs) = (Inr (), mem x)
     \<and> hookInbox x = [] \<and> hookTaken x = 0 \<and> hookAt x = Listening True
     \<and> loadTasks x = [] \<and> messageTasks x = [] \<and> requestTasks x = []"

end
