(* ===== verification/Rt_LoopInv.thy ===== *)
theory Rt_LoopInv
  imports Rt_Loop
begin

text \<open>
  Invariants of the event loop: the service's invariant at every step of every task, the
  agreement of consumers and files whenever the hook listens after a success, and, as long as
  no load is in flight while the cache is cleared, the freshness of every load.
\<close>

section \<open>A step of a refresh\<close>

lemma keeps_finishSync: "osBlind P \<Longrightarrow> keeps P clearModuleCache \<Longrightarrow> keeps P (finishSync pf cfg n)"
  unfolding finishSync_def by (intro keeps_andThen keeps_blind)

lemma refreshStep_blind_clear:
  assumes "refreshStep pf cfg pc s = (pc', t)" and "osBlind P" and "keeps P clearModuleCache" and "P s"
  shows "P t"
  by (rule refreshStep_keeps [where P = P, OF assms(1,4)])
    (auto intro: keeps_run [OF assms(2)] keeps_blind [OF assms(2)] keeps_finishSync [OF assms(2,3)])

text \<open>What only the reconciliation, the messages and the requests change.\<close>

definition tableView where
  "tableView cfg s = (hookSubs cfg s, consumers s, published s)"

lemma refreshStep_service:
  fixes s :: "'a rt_state_scheme"
  assumes step: "refreshStep pf cfg pc s = (pc', t)" and tidy: "commandsTidy pf" and inv: "serviceInv cfg s"
  shows "serviceInv cfg t" "tableView cfg t = tableView cfg s" "moduleVersion s \<le> moduleVersion t"
proof -
  have "fsInv (files t)" using refreshStep_fsInv [OF step tidy] inv by (simp add: serviceInv_def)
  moreover have "loaderInv t"
    by (rule refreshStep_blind_clear [where P = loaderInv, OF step blind_facts(2) keeps_clear(2)])
      (use inv in \<open>simp add: serviceInv_def\<close>)
  moreover have "consumersInv cfg t"
    by (rule refreshStep_blind_clear [where P = "consumersInv cfg", OF step blind_facts(1) keeps_clear(1)])
      (use inv in \<open>simp add: serviceInv_def\<close>)
  ultimately show "serviceInv cfg t" by (simp add: serviceInv_def)
  show "tableView cfg t = tableView cfg s"
    by (rule refreshStep_blind_clear [where P = "\<lambda>u. tableView cfg u = tableView cfg s", OF step])
      (simp_all add: osBlind_def keeps_def clearModuleCache_def modify_def tableView_def hookSubs_def)
  show "moduleVersion s \<le> moduleVersion t"
    by (rule refreshStep_blind_clear [where P = "\<lambda>u. moduleVersion s \<le> moduleVersion u", OF step])
      (simp_all add: osBlind_def keeps_def clearModuleCache_def modify_def)
qed

section \<open>A step of a reconciliation\<close>

definition servesDisk :: "platform \<Rightarrow> 'a rt_state_scheme \<Rightarrow> bool" where
  "servesDisk pf s \<longleftrightarrow> (\<forall>n. mapGet (consumers s) n \<noteq> None \<longleftrightarrow> onDisk pf s n)"

text \<open>Between the listing and the end: what has no consumer yet is still to be started.\<close>

definition startingInv :: "platform \<Rightarrow> string list \<Rightarrow> 'a rt_state_scheme \<Rightarrow> bool" where
  "startingInv pf names s \<longleftrightarrow>
     (\<forall>n \<in> set names. onDisk pf s n)
     \<and> (\<forall>n. mapGet (consumers s) n \<noteq> None \<longrightarrow> onDisk pf s n)
     \<and> (\<forall>n. onDisk pf s n \<longrightarrow> mapGet (consumers s) n \<noteq> None \<or> n \<in> set names)"

fun phaseInv :: "platform \<Rightarrow> hook_pc \<Rightarrow> 'a rt_state_scheme \<Rightarrow> bool" where
  "phaseInv pf (Listening ok) s \<longleftrightarrow> (ok \<longrightarrow> servesDisk pf s)"
| "phaseInv pf (Reconciling (Starting names)) s \<longleftrightarrow> startingInv pf names s"
| "phaseInv pf (Reconciling Reconciled) s \<longleftrightarrow> servesDisk pf s"
| "phaseInv pf (Syncing pc) s \<longleftrightarrow> \<not> refreshDone pc"
| "phaseInv pf _ s \<longleftrightarrow> True"

lemma onDisk_frame: "files t = files s \<Longrightarrow> onDisk pf t n = onDisk pf s n"
  by (simp add: onDisk_def dirEntry_def)

lemma phaseInv_frame:
  assumes "files t = files s" and "consumers t = consumers s"
  shows "phaseInv pf h t = phaseInv pf h s"
  by (cases "(pf, h, s)" rule: phaseInv.cases)
    (simp_all add: servesDisk_def startingInv_def onDisk_frame [OF assms(1)] assms(2))

lemma serviceInv_reconcile:
  assumes "reconcileInv cfg h (restPart s) t" and "serviceInv cfg s"
  shows "serviceInv cfg t" "files t = files s"
  using assms restPartD [of t s] by (simp_all add: reconcileInv_def serviceInv_def loaderInv_def)

lemma dropUnwanted_starting:
  fixes s :: "'a rt_state_scheme"
  assumes inv: "serviceInv cfg s" and names: "distinct names" "\<And>n. n \<in> set names \<longleftrightarrow> onDisk pf s n"
    and run: "dropUnwanted names s = (pc', t)"
  shows "reconcileInv cfg (hookSubs cfg s) (restPart s) t \<and> phaseInv pf (Reconciling pc') t"
proof -
  have ri: "reconcileInv cfg (hookSubs cfg s) (restPart s) s"
    using inv by (simp add: reconcileInv_def serviceInv_def)
  obtain u where u: "dropConsumers names (consumers s) s = (Inr (), u)"
    "reconcileInv cfg (hookSubs cfg s) (restPart s) u"
    "mapGet (consumers u) = (\<lambda>n. if n \<in> set names then mapGet (consumers s) n else None)"
    by (rule dropConsumers_state [OF ri])
  have t: "pc' = Starting names" "t = u"
    using run u(1) newSet_id [OF names(1)] by (simp_all add: dropUnwanted_def Let_def)
  have "onDisk pf u n = onDisk pf s n" for n
    by (rule onDisk_frame [OF serviceInv_reconcile(2) [OF u(2) inv]])
  with u t names(2) show ?thesis by (simp add: startingInv_def)
qed

lemma listed_onDisk:
  assumes "fsInv (files s)" and "listFunctions pf s = (Inr names, s)"
  shows "distinct names" "n \<in> set names \<longleftrightarrow> onDisk pf s n"
  using listFunctions_Inr [OF assms] by (simp_all add: onDisk_def)

lemma reconcileStep_inv:
  fixes s :: "'a rt_state_scheme"
  assumes inv: "serviceInv cfg s" and phase: "phaseInv pf (Reconciling pc) s"
    and step: "reconcileStep pf cfg pc s = (pc', t)"
  shows "reconcileInv cfg (hookSubs cfg s) (restPart s) t \<and> phaseInv pf (Reconciling pc') t"
proof -
  have ri: "reconcileInv cfg (hookSubs cfg s) (restPart s) s" and fsI: "fsInv (files s)"
    using inv by (simp_all add: reconcileInv_def serviceInv_def)
  show ?thesis
  proof (cases "(pf, cfg, pc, s)" rule: reconcileStep.cases)
    case 1
    show ?thesis
    proof (cases "fsExists (files s) (runtimeFunctionsPath pf)")
      case True
      with 1 step ri show ?thesis by simp
    next
      case False
      note l = listed_onDisk [OF fsI listFunctions_listed(1) [OF False]]
      from 1 step False have "dropUnwanted [] s = (pc', t)" by simp
      from dropUnwanted_starting [OF inv l this] show ?thesis .
    qed
  next
    case 2
    show ?thesis
    proof (cases "fsReaddir (files s) (runtimeFunctionsPath pf)")
      case (Inl e)
      with 2 step ri show ?thesis by auto
    next
      case (Inr entries)
      then have ex: "fsExists (files s) (runtimeFunctionsPath pf)"
        by (auto simp: fsReaddir_Inr fsExists_def)
      note l = listed_onDisk [OF fsI listFunctions_listed(2) [OF ex Inr]]
      from 2 step Inr have "dropUnwanted (functionNames entries) s = (pc', t)" by simp
      from dropUnwanted_starting [OF inv l this] show ?thesis .
    qed
  next
    case 3
    with step ri phase show ?thesis by (auto simp: startingInv_def servesDisk_def)
  next
    case (4 _ _ name names)
    show ?thesis
    proof (cases "mapGet (consumers s) name")
      case (Some i)
      have "startingInv pf (name # names) s" using phase 4 by simp
      then have "startingInv pf names s"
        unfolding startingInv_def by (metis Some list.set_intros(2) option.distinct(1) set_ConsD)
      with 4 step ri Some show ?thesis by (auto simp: mapHas_def)
    next
      case None
      obtain r u where c: "consumeFunction pf cfg name s = (r, u)" by (cases "consumeFunction pf cfg name s")
      show ?thesis
      proof (cases r)
        case (Inl e)
        with c have "u = s" by (auto dest: consumeFunction_Inl)
        with Inl c 4 step None ri show ?thesis by (auto simp: mapHas_def)
      next
        case (Inr v)
        note k = consumeFunction_Inr [OF ri None c [unfolded Inr]]
        have t: "pc' = Starting names" "t = u" using 4 step None c Inr by (simp_all add: mapHas_def)
        have "onDisk pf u n = onDisk pf s n" for n
          by (rule onDisk_frame [OF serviceInv_reconcile(2) [OF k(1) inv]])
        with k t phase 4 show ?thesis by (auto simp: startingInv_def)
      qed
    qed
  qed (use step ri phase in auto)
qed

section \<open>A step of the hook\<close>

lemma hookStep_inv:
  fixes s :: "'a rt_state_scheme"
  assumes step: "hookStep pf cfg h s = (h', t)" and tidy: "commandsTidy pf"
    and inv: "serviceInv cfg s" and phase: "phaseInv pf h s"
  shows "serviceInv cfg t \<and> hookSubs cfg t = hookSubs cfg s \<and> published t = published s
    \<and> phaseInv pf h' t \<and> moduleVersion s \<le> moduleVersion t"
proof (cases h)
  case (Listening ok)
  with step inv phase show ?thesis by auto
next
  case (Syncing pc)
  obtain pc' u where st: "refreshStep pf cfg pc s = (pc', u)" by (cases "refreshStep pf cfg pc s")
  note r = refreshStep_service [OF st tidy inv]
  have "(\<exists>c. t = u\<lparr>console := c\<rparr>) \<and> phaseInv pf h' t"
    using step Syncing hookStep_sync_cases [OF st]
    by (cases pc') (auto simp: hookFailed_def logError_def modify_def intro: exI [of _ "console u"])
  with r show ?thesis
    by (auto simp: serviceInv_log hookSubs_def tableView_def)
next
  case (Reconciling pc)
  obtain pc' u where st: "reconcileStep pf cfg pc s = (pc', u)" by (cases "reconcileStep pf cfg pc s")
  note r = reconcileStep_inv [OF inv phase [unfolded Reconciling] st]
  have "(\<exists>c. t = u\<lparr>console := c\<rparr>) \<and> phaseInv pf h' t"
    using step Reconciling hookStep_reconcile_cases [OF st] r
    by (cases pc') (auto simp: hookFailed_def hookSucceeded_def logError_def logInfo_def modify_def
        phaseInv_frame servesDisk_def onDisk_def dirEntry_def intro: exI [of _ "console u"])
  with r serviceInv_reconcile(1) [of cfg "hookSubs cfg s" s u] restPartD [of u s] inv show ?thesis
    by (auto simp: serviceInv_log hookSubs_def reconcileInv_def)
qed

lemma takeHook_state:
  "\<exists>c. takeHook cfg msg s = (Syncing Checking, s\<lparr>console := c\<rparr>)"
  by (simp add: takeHook_def refreshBegin_def logInfo_def modify_def) blast

section \<open>A step of a load, a message or a request\<close>

text \<open>The URL a load is about to import was made from some version of the cache, now or earlier.\<close>

fun urlInv :: "platform \<Rightarrow> 'a fn_state_scheme \<Rightarrow> string \<times> load_pc \<Rightarrow> bool" where
  "urlInv pf s (n, Importing url) \<longleftrightarrow> (\<exists>v \<le> moduleVersion s. url = importURL (functionPath pf n) v)"
| "urlInv pf s _ \<longleftrightarrow> True"

lemma urlInv_mono: "urlInv pf s l \<Longrightarrow> moduleVersion s \<le> moduleVersion t \<Longrightarrow> urlInv pf t l"
  by (cases "(pf, s, l)" rule: urlInv.cases) (simp_all, metis order_trans)

lemma loadStep_urls:
  assumes step: "loadStep pf n pc s = (pc', t)" and inv: "loaderInv s" and url: "urlInv pf s (n, pc)"
  shows "loaderInv t \<and> urlInv pf t (n, pc')"
proof (cases pc)
  case (Importing u)
  then obtain v where v: "v \<le> moduleVersion s" "u = importURL (functionPath pf n) v" using url by auto
  obtain r w where i: "importModule pf u (functionPath pf n) s = (r, w)"
    by (cases "importModule pf u (functionPath pf n) s")
  have "loaderInv w"
    unfolding loaderInv_def
  proof (intro allI impI)
    fix url x assume "mapGet (importTable w) url = Some x"
    then have "mapGet (importTable s) url = Some x \<or> url = u"
      using importModule_frame [OF i] by (auto simp: mapGet_set split: if_splits)
    then show "\<exists>p v. url = importURL p v \<and> v \<le> moduleVersion w"
      using importModule_frame [OF i] inv v unfolding loaderInv_def by metis
  qed
  with step Importing i show ?thesis by (auto split: sum.splits)
qed (use step inv in \<open>auto simp: loaderInv_def split: option.splits if_splits\<close>)

lemma loadStep_tables:
  fixes s :: "'a rt_state_scheme"
  assumes "loadStep pf n pc s = (pc', t)"
  shows "tablePart t = tablePart s" "files t = files s" "moduleVersion t = moduleVersion s"
proof -
  have "fn_state.more t = fn_state.more s"
    using assms by (cases pc)
      (auto split: option.splits if_splits prod.splits sum.splits dest!: importModule_frame)
  then show "tablePart t = tablePart s" by (cases s; cases t) (simp add: tablePart_def)
  show "files t = files s" "moduleVersion t = moduleVersion s" using loadStep_frame [OF assms] by blast+
qed

lemma resumeMessage_state:
  assumes "resumeMessage pf cfg ls m s = (pc', t)"
  shows "\<exists>c p. t = s\<lparr>console := c, published := p\<rparr>"
proof -
  have "\<exists>c p. s = s\<lparr>console := c, published := p\<rparr>"
    by (rule exI [of _ "console s"], rule exI [of _ "published s"]) simp
  moreover have "\<exists>c p. s\<lparr>published := q\<rparr> = s\<lparr>console := c, published := p\<rparr>" for q
    by (rule exI [of _ "console s"], rule exI [of _ q]) simp
  moreover have "\<exists>c p. s\<lparr>console := q\<rparr> = s\<lparr>console := c, published := p\<rparr>" for q
    by (rule exI [of _ q], rule exI [of _ "published s"]) simp
  ultimately show ?thesis
    using assms by (auto simp: resumeMessage_def failMessage_def logError_def modify_def
        split: message_pc.splits load_pc.splits gen.splits option.splits)
qed

lemma moveRequest_state:
  "\<exists>c qs. moveRequest cfg i x = x\<lparr>mem := mem x\<lparr>console := c\<rparr>, requestTasks := qs\<rparr>"
proof -
  have same: "\<exists>c qs. x = x\<lparr>mem := mem x\<lparr>console := c\<rparr>, requestTasks := qs\<rparr>"
    by (rule exI [of _ "console (mem x)"], rule exI [of _ "requestTasks x"]) simp
  have "\<exists>c qs. x\<lparr>mem := snd (respond cfg n g (mem x)), requestTasks := q\<rparr>
      = x\<lparr>mem := mem x\<lparr>console := c\<rparr>, requestTasks := qs\<rparr>" for n g q
    using respond_state [of cfg n g "mem x"] by (metis (no_types))
  with same show ?thesis
    by (auto simp: moveRequest_def Let_def case_prod_beta split: request_pc.splits load_pc.splits)
qed

section \<open>The invariant of the loop\<close>

definition loopInv :: "platform \<Rightarrow> settings \<Rightarrow> event_loop \<Rightarrow> bool" where
  "loopInv pf cfg x \<longleftrightarrow>
     serviceInv cfg (mem x) \<and> liveOn (mem x) (hookSubject cfg) = 1 \<and> phaseInv pf (hookAt x) (mem x)
     \<and> (\<forall>l \<in> set (loadTasks x). urlInv pf (mem x) l)"

lemma loopInv_frame:
  assumes inv: "loopInv pf cfg x" and files: "files (mem y) = files (mem x)"
    and tables: "tablePart (mem y) = tablePart (mem x)" and hook: "hookAt y = hookAt x"
    and loader: "loaderInv (mem y)" and urls: "\<forall>l \<in> set (loadTasks y). urlInv pf (mem y) l"
  shows "loopInv pf cfg y"
  using inv files tables loader urls phaseInv_frame [of "mem y" "mem x" pf "hookAt x"]
  by (simp add: loopInv_def serviceInv_def consumersInv_def liveOn_def tablePart_def hook)

text \<open>What the tasks other than the hook leave alone.\<close>

lemma served_frame:
  assumes step: "loopStep pf cfg quiet x e y" and hook: "e \<noteq> HookMoves" and inv: "loopInv pf cfg x"
  shows "loopInv pf cfg y" "files (mem y) = files (mem x)" "hookAt y = hookAt x" "hookTaken y = hookTaken x"
proof -
  have old: "loaderInv (mem x)" "\<forall>l \<in> set (loadTasks x). urlInv pf (mem x) l"
    using inv by (simp_all add: loopInv_def serviceInv_def)
  have "files (mem y) = files (mem x) \<and> tablePart (mem y) = tablePart (mem x) \<and> hookAt y = hookAt x
    \<and> hookTaken y = hookTaken x \<and> loaderInv (mem y) \<and> (\<forall>l \<in> set (loadTasks y). urlInv pf (mem y) l)"
    using step
  proof cases
    case hook_moves
    with hook show ?thesis by simp
  next
    case (message_moves i)
    obtain sid m where m: "messageTasks x ! i = (sid, m)" by (cases "messageTasks x ! i")
    obtain pc s where r: "resumeMessage pf cfg (loadTasks x) m (mem x) = (pc, s)"
      by (cases "resumeMessage pf cfg (loadTasks x) m (mem x)")
    from resumeMessage_state [OF r] obtain c p where "s = mem x\<lparr>console := c, published := p\<rparr>" by blast
    with message_moves m r old show ?thesis
      by (auto simp: moveMessage_def tablePart_def loaderInv_def intro: urlInv_mono)
  next
    case (request_moves i)
    obtain c where "mem y = mem x\<lparr>console := c\<rparr>" "loadTasks y = loadTasks x" "hookAt y = hookAt x"
      "hookTaken y = hookTaken x"
      using moveRequest_state [of cfg i x] request_moves(2) by auto
    then show ?thesis using old by (auto simp: tablePart_def loaderInv_def intro: urlInv_mono)
  next
    case (load_moves i)
    obtain n pc where l: "loadTasks x ! i = (n, pc)" by (cases "loadTasks x ! i")
    obtain pc' s where st: "loadStep pf n pc (mem x) = (pc', s)" by (cases "loadStep pf n pc (mem x)")
    have "urlInv pf (mem x) (n, pc)" using old(2) load_moves(3) l by (metis nth_mem)
    note u = loadStep_urls [OF st old(1) this] and f = loadStep_tables [OF st]
    have "urlInv pf s q" if "q \<in> set ((loadTasks x)[i := (n, pc')])" for q
      using that u old(2) set_update_subset_insert [of "loadTasks x" i "(n, pc')"] urlInv_mono f(3)
      by (metis insertE order_refl subsetD)
    with u f load_moves(2) l st show ?thesis by (simp add: moveLoad_def)
  qed (use old in \<open>auto simp: acceptMessage_def acceptRequest_def Let_def split: prod.splits sum.splits\<close>)
  with loopInv_frame [OF inv] show "loopInv pf cfg y" "files (mem y) = files (mem x)"
    "hookAt y = hookAt x" "hookTaken y = hookTaken x" by blast+
qed

lemma moveHook_inv:
  assumes tidy: "commandsTidy pf" and inv: "loopInv pf cfg x"
  shows "loopInv pf cfg (moveHook pf cfg x)"
proof -
  have x: "serviceInv cfg (mem x)" "phaseInv pf (hookAt x) (mem x)" using inv by (simp_all add: loopInv_def)
  obtain h s where st: "hookStep pf cfg (hookAt x) (mem x) = (h, s)"
    by (cases "hookStep pf cfg (hookAt x) (mem x)")
  note r = hookStep_inv [OF st tidy x]
  obtain c where c: "takeHook cfg (hookInbox x ! hookTaken x) (mem x) = (Syncing Checking, mem x\<lparr>console := c\<rparr>)"
    using takeHook_state by blast
  show ?thesis
    using inv r st c by (auto simp: moveHook_def loopInv_def liveOn_hookSubs serviceInv_log hookSubs_def
        intro: urlInv_mono)
qed

lemma loopInv_step:
  assumes "commandsTidy pf" and "loopInv pf cfg x" and "loopStep pf cfg quiet x e y"
  shows "loopInv pf cfg y"
proof (cases "e = HookMoves")
  case True
  with assms moveHook_inv show ?thesis by (simp add: hook_moves_simps)
qed (use served_frame(1) assms in blast)

lemma loopInv_start:
  assumes "installed pf" and "commandsTidy pf" and "fsInv fs" and "loopStart pf cfg fs x"
  shows "loopInv pf cfg x" "upToDate pf cfg (mem x)"
proof -
  have "booted pf cfg fs (mem x, True)" using assms(4) by (simp add: loopStart_def booted_def)
  from booted_inv [OF assms(1-3) this] have i: "processInv pf cfg (mem x, True)" .
  then show up: "upToDate pf cfg (mem x)" by (simp add: processInv_def)
  have "consumersInv cfg (mem x)" using i by (simp add: processInv_def serviceInv_def)
  from liveOn_exec [OF this] up have "servesDisk pf (mem x)"
    unfolding servesDisk_def upToDate_def by (metis zero_neq_one)
  with i assms(4) show "loopInv pf cfg x" by (simp add: loopInv_def processInv_def loopStart_def)
qed

interpretation loop: inductive_invariant "loopStart pf cfg fs" "loopStep pf cfg quiet"
    "\<lambda>x. installed pf \<and> commandsTidy pf \<and> fsInv fs \<longrightarrow> loopInv pf cfg x"
  for pf cfg fs quiet
  by unfold_locales (auto intro: loopInv_start loopInv_step)

end
