(* ===== verification/Rt_LoopFresh.thy ===== *)
theory Rt_LoopFresh
  imports Rt_LoopInv
begin

text \<open>
  Freshness in the event loop: what the loads bring while the hook refreshes, and the two
  safety properties of the whole loop.
\<close>

section \<open>Freshness\<close>

text \<open>What the hook's program point is for the loads: the refresh it is in, or none.\<close>

fun hookRefresh :: "hook_pc \<Rightarrow> refresh_task" where
  "hookRefresh (Listening ok) = Idle ok"
| "hookRefresh (Syncing pc) = Refreshing pc"
| "hookRefresh (Reconciling pc) = Idle True"

definition freshInv :: "platform \<Rightarrow> event_loop \<Rightarrow> bool" where
  "freshInv pf x \<longleftrightarrow> loadsInv pf (mem x, hookRefresh (hookAt x), loadTasks x)"

definition loaderView where
  "loaderView s = (files s, modules s, moduleVersion s, importTable s)"

lemma loadsInv_frame:
  assumes inv: "loadsInv pf (s, r, ls)" and same: "loaderView t = loaderView s" and idle: "r' = Idle True \<Longrightarrow> r = Idle True"
  shows "loadsInv pf (t, r', ls)"
proof -
  have s: "files t = files s" "modules t = modules s" "moduleVersion t = moduleVersion s"
    "importTable t = importTable s" using same by (simp_all add: loaderView_def)
  have "loadInv pf (r' = Idle True) t l" if "l \<in> set ls" for l
    by (rule loadInv_frame [where s = s and fresh = "r = Idle True"]) (use inv s idle that in auto)
  moreover have "loaderInv t" using inv s by (simp add: loaderInv_def)
  moreover have "loaderFresh pf t" if "r' = Idle True"
    by (rule loaderFresh_frame [OF _ s]) (use inv idle [OF that] in simp)
  ultimately show ?thesis by simp
qed

lemma loadsInv_append: "loadsInv pf (s, r, ls) \<Longrightarrow> loadsInv pf (s, r, ls @ [(n, Lookup)])"
  by auto

lemma freshInv_frame:
  assumes "freshInv pf x" and "loaderView (mem y) = loaderView (mem x)" and "hookAt y = hookAt x"
    and "loadTasks y = loadTasks x \<or> (\<exists>n. loadTasks y = loadTasks x @ [(n, Lookup)])"
  shows "freshInv pf y"
  using assms loadsInv_frame [of pf "mem x" "hookRefresh (hookAt x)" "loadTasks x" "mem y" "hookRefresh (hookAt x)"]
    loadsInv_append [of pf "mem y" "hookRefresh (hookAt x)" "loadTasks x"]
  by (auto simp: freshInv_def)

lemma moveHook_fresh:
  assumes inv: "loopInv pf cfg x" and fresh: "freshInv pf x"
    and quiet: "hookClearing (hookAt x) \<Longrightarrow> \<forall>(n, q) \<in> set (loadTasks x). \<not> inFlight q"
  shows "freshInv pf (moveHook pf cfg x)"
proof (cases "hookAt x")
  case (Listening ok)
  obtain c where c: "takeHook cfg (hookInbox x ! hookTaken x) (mem x) = (Syncing Checking, mem x\<lparr>console := c\<rparr>)"
    using takeHook_state by blast
  have "loadsInv pf (mem x\<lparr>console := c\<rparr>, Refreshing Checking, loadTasks x)"
    by (rule loadsInv_frame [OF fresh [unfolded freshInv_def]]) (simp_all add: loaderView_def)
  with Listening fresh c show ?thesis by (simp add: moveHook_def freshInv_def)
next
  case (Syncing pc)
  obtain pc' u where st: "refreshStep pf cfg pc (mem x) = (pc', u)" by (cases "refreshStep pf cfg pc (mem x)")
  have notdone: "\<not> refreshDone pc" using inv Syncing by (simp add: loopInv_def)
  have "taskStep pf cfg True (mem x, Refreshing pc, loadTasks x) StepRefresh (u, afterStep pc', loadTasks x)"
    by (rule step_refresh [OF notdone st]) (use quiet Syncing in simp)
  from loadsInv_step [OF _ this] fresh have u: "loadsInv pf (u, afterStep pc', loadTasks x)"
    unfolding freshInv_def Syncing hookRefresh.simps by blast
  obtain h t where h: "hookStep pf cfg (Syncing pc) (mem x) = (h, t)" by (cases "hookStep pf cfg (Syncing pc) (mem x)")
  have "loaderView t = loaderView u \<and> hookRefresh h = afterStep pc'"
    using h hookStep_sync_cases [OF st]
    by (cases pc') (auto simp: hookFailed_def logError_def modify_def loaderView_def)
  with loadsInv_frame [OF u, of t "hookRefresh h"] h Syncing show ?thesis by (simp add: moveHook_def freshInv_def)
next
  case (Reconciling pc)
  obtain pc' u where st: "reconcileStep pf cfg pc (mem x) = (pc', u)" by (cases "reconcileStep pf cfg pc (mem x)")
  have "serviceInv cfg (mem x)" "phaseInv pf (Reconciling pc) (mem x)" using inv Reconciling by (simp_all add: loopInv_def)
  from reconcileStep_inv [OF this st] have "restPart u = restPart (mem x)" by (simp add: reconcileInv_def)
  then have u: "loaderView u = loaderView (mem x)" by (simp add: restPart_def loaderView_def)
  obtain h t where h: "hookStep pf cfg (Reconciling pc) (mem x) = (h, t)"
    by (cases "hookStep pf cfg (Reconciling pc) (mem x)")
  have "loaderView t = loaderView u"
    using h hookStep_reconcile_cases [OF st]
    by (cases pc') (auto simp: hookFailed_def hookSucceeded_def logError_def logInfo_def modify_def loaderView_def)
  with u loadsInv_frame [OF fresh [unfolded freshInv_def], of t "hookRefresh h"] h Reconciling
  show ?thesis by (simp add: moveHook_def freshInv_def)
qed

lemma freshInv_step:
  assumes inv: "loopInv pf cfg x" and fresh: "freshInv pf x" and step: "loopStep pf cfg True x e y"
  shows "freshInv pf y"
  using step
proof cases
  case hook_moves
  with moveHook_fresh [OF inv fresh] show ?thesis by simp
next
  case (message_moves i)
  obtain sid m where m: "messageTasks x ! i = (sid, m)" by (cases "messageTasks x ! i")
  obtain pc s where r: "resumeMessage pf cfg (loadTasks x) m (mem x) = (pc, s)"
    by (cases "resumeMessage pf cfg (loadTasks x) m (mem x)")
  from resumeMessage_state [OF r] have "loaderView s = loaderView (mem x)" by (auto simp: loaderView_def)
  with message_moves m r show ?thesis
    by (intro freshInv_frame [OF fresh]) (simp_all add: moveMessage_def)
next
  case (request_moves i)
  then show ?thesis
    using moveRequest_state [of cfg i x] by (intro freshInv_frame [OF fresh]) (auto simp: loaderView_def)
next
  case (load_moves i)
  obtain n pc where l: "loadTasks x ! i = (n, pc)" by (cases "loadTasks x ! i")
  obtain pc' s where st: "loadStep pf n pc (mem x) = (pc', s)" by (cases "loadStep pf n pc (mem x)")
  have "taskStep pf cfg True (mem x, hookRefresh (hookAt x), loadTasks x) (StepLoad i)
      (s, hookRefresh (hookAt x), (loadTasks x)[i := (n, pc')])"
    by (rule step_load [OF load_moves(3) l st])
  from loadsInv_step [OF fresh [unfolded freshInv_def] this] load_moves(2) l st show ?thesis
    by (simp add: freshInv_def moveLoad_def)
qed (use freshInv_frame [OF fresh] in \<open>auto simp: acceptMessage_def acceptRequest_def Let_def split: prod.splits sum.splits\<close>)

text \<open>Both invariants together, in the runs that are quiet.\<close>

interpretation quiet: inductive_invariant "loopStart pf cfg fs" "loopStep pf cfg True"
    "\<lambda>x. installed pf \<and> commandsTidy pf \<and> fsInv fs \<longrightarrow> loopInv pf cfg x \<and> freshInv pf x"
  for pf cfg fs
proof unfold_locales
  fix x
  assume start: "loopStart pf cfg fs x"
  show "installed pf \<and> commandsTidy pf \<and> fsInv fs \<longrightarrow> loopInv pf cfg x \<and> freshInv pf x"
  proof (intro impI)
    assume "installed pf \<and> commandsTidy pf \<and> fsInv fs"
    then have i: "loopInv pf cfg x" "upToDate pf cfg (mem x)" using loopInv_start start by blast+
    then have "freshInv pf x"
      using start by (simp add: freshInv_def loopStart_def loopInv_def serviceInv_def upToDate_def)
    with i(1) show "loopInv pf cfg x \<and> freshInv pf x" ..
  qed
qed (blast intro: loopInv_step freshInv_step)

section \<open>Properties\<close>

text \<open>
  C1. However the hook, messages, requests and loads are interleaved after the boot: whenever the
  hook listens after a refresh it logged as successful, the functions listened for are exactly
  those on disk, each through one subscription; and unless a load was in flight while a cache was
  cleared, loading any function gives the module of the file on disk.
\<close>

theorem loop_is_up_to_date:
  assumes "installed pf" and "commandsTidy pf" and "fsInv fs"
    and "reach (loopStart pf cfg fs) (loopStep pf cfg quiet) x" and "hookAt x = Listening True"
  shows "(\<forall>n. liveOn (mem x) (execSubject cfg n) = (if onDisk pf (mem x) n then 1 else 0))
    \<and> (quiet \<longrightarrow> (\<forall>n. fst (loadModule pf n (mem x)) = loadUncached pf (files (mem x)) n))"
proof
  have inv: "loopInv pf cfg x" using loop.reach_inv [OF assms(4)] assms(1-3) by blast
  then have "consumersInv cfg (mem x)" "servesDisk pf (mem x)"
    using assms(5) by (simp_all add: loopInv_def serviceInv_def)
  with liveOn_exec show "\<forall>n. liveOn (mem x) (execSubject cfg n) = (if onDisk pf (mem x) n then 1 else 0)"
    unfolding servesDisk_def by metis
  show "quiet \<longrightarrow> (\<forall>n. fst (loadModule pf n (mem x)) = loadUncached pf (files (mem x)) n)"
  proof (intro impI allI)
    fix n assume quiet
    with assms(4) have "reach (loopStart pf cfg fs) (loopStep pf cfg True) x" by simp
    from quiet.reach_inv [OF this] assms(1-3,5) have "loaderFresh pf (mem x)" by (simp add: freshInv_def)
    then show "fst (loadModule pf n (mem x)) = loadUncached pf (files (mem x)) n" by (rule cached.load_view)
  qed
qed

text \<open>
  C8. In every state of the event loop, in the middle of refreshes and reconciliations and after
  failed ones: the file table is well formed, every imported URL carries a version no newer than
  the cache's, the consumer table and the live subscriptions agree, the hook has exactly one
  subscription and no function has two.
\<close>

theorem loop_invariant:
  assumes "installed pf" and "commandsTidy pf" and "fsInv fs"
    and "reach (loopStart pf cfg fs) (loopStep pf cfg quiet) x"
  shows "fsInv (files (mem x)) \<and> loaderInv (mem x) \<and> consumersInv cfg (mem x)
    \<and> liveOn (mem x) (hookSubject cfg) = 1 \<and> (\<forall>n. liveOn (mem x) (execSubject cfg n) \<le> 1)"
proof -
  have inv: "loopInv pf cfg x" using loop.reach_inv [OF assms(4)] assms(1-3) by blast
  then have "consumersInv cfg (mem x)" by (simp add: loopInv_def serviceInv_def)
  from liveOn_exec [OF this] inv show ?thesis by (simp add: loopInv_def serviceInv_def)
qed

text \<open>The loop of the example, started, and after its first request has arrived.\<close>

definition demoLoop :: "proc_state \<Rightarrow> event_loop" where
  "demoLoop s = \<lparr>mem = s, hookInbox = [], hookTaken = 0, hookAt = Listening True,
     loadTasks = [], messageTasks = [], requestTasks = []\<rparr>"

lemma demo_started: "\<exists>s. loopStart demoPlatform demoSettings demoFiles (demoLoop s)"
  using demo_main_ok by (simp add: loopStart_def demoLoop_def)

lemma demo_running:
  obtains s x where "loopStart demoPlatform demoSettings demoFiles (demoLoop s)"
    "x = acceptRequest demoSettings demoRequest (demoLoop s)" "hookAt x = Listening True"
    "reach (loopStart demoPlatform demoSettings demoFiles) (loopStep demoPlatform demoSettings q) x"
proof -
  obtain s where s: "loopStart demoPlatform demoSettings demoFiles (demoLoop s)" using demo_started by blast
  let ?x = "acceptRequest demoSettings demoRequest (demoLoop s)"
  have "reach (loopStart demoPlatform demoSettings demoFiles) (loopStep demoPlatform demoSettings q) (demoLoop s)"
    using s by (rule reach_init)
  then have "reach (loopStart demoPlatform demoSettings demoFiles) (loopStep demoPlatform demoSettings q) ?x"
    by (rule reach_step) (rule request_arrives)
  moreover have "hookAt ?x = Listening True"
    by (simp add: acceptRequest_def demoLoop_def Let_def split: prod.split sum.split)
  ultimately show ?thesis using that s by blast
qed

theorem loop_is_up_to_date_witness:
  "\<exists>x. reach (loopStart demoPlatform demoSettings demoFiles) (loopStep demoPlatform demoSettings True) x
    \<and> length (requestTasks x) = 1
    \<and> fst (loadModule demoPlatform ''hello'' (mem x)) = loadUncached demoPlatform (files (mem x)) ''hello''"
proof -
  obtain s x where x: "x = acceptRequest demoSettings demoRequest (demoLoop s)" "hookAt x = Listening True"
    "reach (loopStart demoPlatform demoSettings demoFiles) (loopStep demoPlatform demoSettings True) x"
    by (rule demo_running)
  have "length (requestTasks x) = 1"
    unfolding x(1) by (simp add: acceptRequest_def demoLoop_def Let_def split: prod.split sum.split)
  with loop_is_up_to_date [OF demo_installed demo_tidy demo_fsInv x(3,2)] x(3) show ?thesis by blast
qed

theorem loop_invariant_witness:
  "\<exists>x. reach (loopStart demoPlatform demoSettings demoFiles) (loopStep demoPlatform demoSettings False) x
    \<and> hookAt x = Syncing Checking \<and> liveOn (mem x) (hookSubject demoSettings) = 1"
proof -
  obtain s x where x: "x = acceptRequest demoSettings demoRequest (demoLoop s)" "hookAt x = Listening True"
    "reach (loopStart demoPlatform demoSettings demoFiles) (loopStep demoPlatform demoSettings False) x"
    by (rule demo_running)
  let ?y = "x\<lparr>hookInbox := hookInbox x @ [(''shop.hook.ts'', [])]\<rparr>"
  let ?z = "moveHook demoPlatform demoSettings ?y"
  have "hookTaken x = 0" "hookInbox x = []"
    unfolding x(1) by (simp_all add: acceptRequest_def demoLoop_def Let_def split: prod.split sum.split)
  then have z: "hookBusy ?y" "hookAt ?z = Syncing Checking"
    using x(2) by (simp_all add: hookBusy_def moveHook_def takeHook_def)
  have "reach (loopStart demoPlatform demoSettings demoFiles) (loopStep demoPlatform demoSettings False) ?y"
    using x(3) by (rule reach_step) (rule hook_arrives)
  then have r: "reach (loopStart demoPlatform demoSettings demoFiles) (loopStep demoPlatform demoSettings False) ?z"
    by (rule reach_step) (rule hook_moves, use z in simp_all)
  from loop_invariant [OF demo_installed demo_tidy demo_fsInv r] r z(2) show ?thesis by blast
qed

end
