(* ===== verification/Rt_Answers.thy ===== *)
theory Rt_Answers
  imports Rt_LoopFresh
begin

text \<open>
  What messages and requests are answered in the event loop: each with the output of the module
  its own load has brought, whole and unmixed; and between two refreshes with what the handler
  alone would answer from the files on disk.
\<close>

section \<open>Loads only advance\<close>

definition loadsGrow :: "(string \<times> load_pc) list \<Rightarrow> (string \<times> load_pc) list \<Rightarrow> bool" where
  "loadsGrow ls ls' \<longleftrightarrow>
     length ls \<le> length ls'
     \<and> (\<forall>k < length ls. fst (ls' ! k) = fst (ls ! k) \<and> (\<forall>r. snd (ls ! k) = Loaded r \<longrightarrow> ls' ! k = ls ! k))"

lemma loadsGrow_simps [simp]: "loadsGrow ls ls" "loadsGrow ls (ls @ [l])"
  by (simp_all add: loadsGrow_def nth_append)

lemma loopStep_loads:
  assumes "loopStep pf cfg quiet x e y"
  shows "loadsGrow (loadTasks x) (loadTasks y)"
  using assms
proof cases
  case (load_moves i)
  then show ?thesis by (auto simp: loadsGrow_def moveLoad_def nth_list_update split: prod.split)
next
  case (request_moves i)
  then show ?thesis using moveRequest_state [of cfg i x] by auto
qed (simp_all add: moveHook_def acceptMessage_def moveMessage_def acceptRequest_def Let_def split: prod.split sum.split)

section \<open>The answers\<close>

definition requestInv :: "settings \<Rightarrow> (string \<times> load_pc) list \<Rightarrow> request_task \<Rightarrow> bool" where
  "requestInv cfg ls q \<longleftrightarrow>
     (let req = httpRequest q; name = requestedName cfg req; k = ownLoad q in
      case requestPc q of
        LoadingFor body req' \<Rightarrow>
          name \<noteq> [] \<and> consumeBody req = (Inr body, req') \<and> k < length ls \<and> fst (ls ! k) = name
      | Answered a \<Rightarrow>
          if name = [] then a = Resolved (textResponse ''function name not provided'' 400)
          else (case consumeBody req of
                  (Inl e, req') \<Rightarrow> a = Rejected e
                | (Inr body, req') \<Rightarrow>
                    k < length ls \<and> (\<exists>r. ls ! k = (name, Loaded r)
                      \<and> a = specResponse name (requestOutput cfg req body req' r))))"

lemma requestInv_grow:
  assumes inv: "requestInv cfg ls q" and grow: "loadsGrow ls ls'"
  shows "requestInv cfg ls' q"
proof -
  have "k < length ls' \<and> fst (ls' ! k) = fst (ls ! k) \<and> (\<forall>r. snd (ls ! k) = Loaded r \<longrightarrow> ls' ! k = ls ! k)"
    if "k < length ls" for k
    using grow that by (simp add: loadsGrow_def)
  from this [of "ownLoad q"] inv show ?thesis
    unfolding requestInv_def Let_def by (auto split: request_pc.splits prod.splits sum.splits if_splits)
qed

lemma messageInv_grow:
  assumes "messageInv cfg ls s m" and "loadsGrow ls ls'" and "published t = published s"
  shows "messageInv cfg ls' t m"
  by (rule messageInv_frame [OF assms(1)]) (use assms(2,3) in \<open>simp_all add: loadsGrow_def sent_def\<close>)

definition answersInv :: "settings \<Rightarrow> event_loop \<Rightarrow> bool" where
  "answersInv cfg x \<longleftrightarrow>
     distinct (map (replySubject cfg \<circ> snd) (messageTasks x))
     \<and> (\<forall>(i, m) \<in> set (messageTasks x). messageInv cfg (loadTasks x) (mem x) m)
     \<and> (\<forall>q \<in> set (requestTasks x). requestInv cfg (loadTasks x) q)"

text \<open>
  No reply subject is used twice: the ingestor, which publishes the messages, draws eight random
  characters for each.
\<close>

definition uniqueStep ::
    "platform \<Rightarrow> settings \<Rightarrow> bool \<Rightarrow> event_loop \<Rightarrow> loop_event \<Rightarrow> event_loop \<Rightarrow> bool" where
  "uniqueStep pf cfg quiet x e y \<longleftrightarrow>
     loopStep pf cfg quiet x e y
     \<and> (\<forall>name msg. e = MessageArrives name msg \<longrightarrow>
          resSubject cfg name (requestID (fst msg)) \<notin> replySubject cfg ` snd ` set (messageTasks x)
          \<and> resSubject cfg name (requestID (fst msg)) \<notin> fst ` set (published (mem x)))"

lemma unique_reach: "reach init (uniqueStep pf cfg quiet) x \<Longrightarrow> reach init (loopStep pf cfg quiet) x"
  by (induction rule: reach.induct) (auto intro: reach_init reach_step simp: uniqueStep_def)

lemma answersInv_keep:
  assumes inv: "answersInv cfg x" and grow: "loadsGrow (loadTasks x) (loadTasks y)"
    and same: "published (mem y) = published (mem x)" "messageTasks y = messageTasks x" "requestTasks y = requestTasks x"
  shows "answersInv cfg y"
  using inv messageInv_grow [OF _ grow same(1)] requestInv_grow [OF _ grow]
  by (fastforce simp: answersInv_def same(2,3))

lemma moveHook_tasks:
  assumes "commandsTidy pf" and "loopInv pf cfg x"
  shows "published (mem (moveHook pf cfg x)) = published (mem x)" "messageTasks (moveHook pf cfg x) = messageTasks x"
    "requestTasks (moveHook pf cfg x) = requestTasks x" "loadTasks (moveHook pf cfg x) = loadTasks x"
proof -
  have inv: "serviceInv cfg (mem x)" "phaseInv pf (hookAt x) (mem x)" using assms(2) by (simp_all add: loopInv_def)
  obtain h s where st: "hookStep pf cfg (hookAt x) (mem x) = (h, s)" by (cases "hookStep pf cfg (hookAt x) (mem x)")
  obtain c where "takeHook cfg (hookInbox x ! hookTaken x) (mem x) = (Syncing Checking, mem x\<lparr>console := c\<rparr>)"
    using takeHook_state by blast
  with hookStep_inv [OF st assms(1) inv] st
  show "published (mem (moveHook pf cfg x)) = published (mem x)" "messageTasks (moveHook pf cfg x) = messageTasks x"
    "requestTasks (moveHook pf cfg x) = requestTasks x" "loadTasks (moveHook pf cfg x) = loadTasks x"
    by (simp_all add: moveHook_def)
qed

lemma moveLoad_published: "published (mem (moveLoad pf i x)) = published (mem x)"
  using loadStep_published by (auto simp: moveLoad_def split: prod.split)

lemma moveRequest_inv:
  assumes inv: "\<forall>q \<in> set (requestTasks x). requestInv cfg (loadTasks x) q"
    and i: "i < length (requestTasks x)" "requestReady (loadTasks x) (requestTasks x ! i)"
  shows "\<forall>q \<in> set (requestTasks (moveRequest cfg i x)). requestInv cfg (loadTasks x) q"
proof -
  let ?q = "requestTasks x ! i"
  obtain body req' where pc: "requestPc ?q = LoadingFor body req'" and ready: "isLoaded (snd (loadTasks x ! ownLoad ?q))"
    using i(2) by (auto simp: requestReady_def split: request_pc.splits)
  obtain r where r: "snd (loadTasks x ! ownLoad ?q) = Loaded r" using ready by (cases "snd (loadTasks x ! ownLoad ?q)") auto
  have q: "requestInv cfg (loadTasks x) ?q" using inv i(1) by simp
  let ?g = "requestOutput cfg (httpRequest ?q) body req' r"
  obtain a s where a: "respond cfg (requestedName cfg (httpRequest ?q)) ?g (mem x) = (a, s)"
    by (cases "respond cfg (requestedName cfg (httpRequest ?q)) ?g (mem x)")
  then have "a = specResponse (requestedName cfg (httpRequest ?q)) ?g" using respond_response by (metis fst_conv)
  with q pc r have "requestInv cfg (loadTasks x) (?q\<lparr>requestPc := Answered a\<rparr>)"
    by (auto simp: requestInv_def Let_def prod_eq_iff)
  moreover have "requestTasks (moveRequest cfg i x) = (requestTasks x)[i := ?q\<lparr>requestPc := Answered a\<rparr>]"
    using pc r a by (simp add: moveRequest_def Let_def)
  ultimately show ?thesis using inv set_update_subset_insert by fastforce
qed

lemma moveMessage_inv:
  assumes acc: "acceptsAll pf" and inv: "answersInv cfg x" and i: "i < length (messageTasks x)"
  shows "answersInv cfg (moveMessage pf cfg i x)"
proof -
  obtain sid m where m: "messageTasks x ! i = (sid, m)" by (cases "messageTasks x ! i")
  obtain pc s where r: "resumeMessage pf cfg (loadTasks x) m (mem x) = (pc, s)"
    by (cases "resumeMessage pf cfg (loadTasks x) m (mem x)")
  let ?new = "(sid, m\<lparr>point := pc\<rparr>)"
  have y: "messageTasks (moveMessage pf cfg i x) = (messageTasks x)[i := ?new]" "mem (moveMessage pf cfg i x) = s"
    "loadTasks (moveMessage pf cfg i x) = loadTasks x" "requestTasks (moveMessage pf cfg i x) = requestTasks x"
    by (simp_all add: moveMessage_def m r)
  have d: "distinct (map (replySubject cfg \<circ> snd) (messageTasks x))"
    and all: "\<And>j p. (j, p) \<in> set (messageTasks x) \<Longrightarrow> messageInv cfg (loadTasks x) (mem x) p"
    using inv by (auto simp: answersInv_def)
  have "messageInv cfg (loadTasks x) (mem x) m" by (rule all [of sid]) (metis m i nth_mem)
  note res = resume_inv [OF acc this r]
  have "map (replySubject cfg \<circ> snd) ((messageTasks x)[i := ?new]) = map (replySubject cfg \<circ> snd) (messageTasks x)"
    using i m by (simp add: map_update replySubject_def list_update_same_conv)
  moreover have "messageInv cfg (loadTasks x) s (snd ((messageTasks x)[i := ?new] ! j))" if j: "j < length (messageTasks x)" for j
  proof (cases "j = i")
    case True
    with res(1) i show ?thesis by simp
  next
    case False
    have "replySubject cfg (snd (messageTasks x ! j)) \<noteq> replySubject cfg m"
      using distinct_conv_nth [THEN iffD1, OF d, rule_format, of j i] False j i m by simp
    moreover have "messageInv cfg (loadTasks x) (mem x) (snd (messageTasks x ! j))"
      using all j by (metis nth_mem prod.collapse)
    ultimately have "messageInv cfg (loadTasks x) s (snd (messageTasks x ! j))"
      using res(2) by (intro messageInv_frame [where ls = "loadTasks x" and s = "mem x" and t = s]) auto
    with False show ?thesis by simp
  qed
  then have "\<forall>(j, p) \<in> set ((messageTasks x)[i := ?new]). messageInv cfg (loadTasks x) s p"
    by (fastforce simp: in_set_conv_nth)
  ultimately show ?thesis using d inv by (simp add: answersInv_def y)
qed

lemma answersInv_step:
  assumes tidy: "commandsTidy pf" and acc: "acceptsAll pf" and loop: "loopInv pf cfg x"
    and inv: "answersInv cfg x" and step: "uniqueStep pf cfg quiet x e y"
  shows "answersInv cfg y"
proof -
  from step have st: "loopStep pf cfg quiet x e y" by (simp add: uniqueStep_def)
  note grow = loopStep_loads [OF st]
  from st show ?thesis
  proof cases
    case hook_moves
    with answersInv_keep [OF inv grow] moveHook_tasks [OF tidy loop] show ?thesis by simp
  next
    case (message_arrives name sid msg)
    let ?m = "\<lparr>callee = name, reqID = requestID (fst msg), payload = snd msg, loadTask = length (loadTasks x), point = Awaiting\<rparr>"
    have subject: "replySubject cfg ?m = resSubject cfg name (requestID (fst msg))" by (simp add: replySubject_def)
    have free: "replySubject cfg ?m \<notin> replySubject cfg ` snd ` set (messageTasks x)"
      "replySubject cfg ?m \<notin> fst ` set (published (mem x))"
      using step message_arrives(1) unfolding subject uniqueStep_def by blast+
    then have "sent (replySubject cfg ?m) (mem x) = []" by (force simp: sent_def filter_empty_conv)
    then have "messageInv cfg (loadTasks x @ [(name, Lookup)]) (mem x) ?m" by (simp add: messageInv_def)
    moreover have "messageInv cfg (loadTasks x @ [(name, Lookup)]) (mem x) p" if "(j, p) \<in> set (messageTasks x)" for j p
      by (rule messageInv_grow [of _ "loadTasks x" "mem x"]) (use inv that in \<open>auto simp: answersInv_def\<close>)
    moreover have "\<forall>q \<in> set (requestTasks x). requestInv cfg (loadTasks x @ [(name, Lookup)]) q"
      using inv requestInv_grow [of cfg "loadTasks x"] by (auto simp: answersInv_def)
    moreover have "messageTasks y = messageTasks x @ [(sid, ?m)]" "mem y = mem x" "requestTasks y = requestTasks x"
      "loadTasks y = loadTasks x @ [(name, Lookup)]"
      using message_arrives(2) by (simp_all add: acceptMessage_def)
    moreover have "distinct (map (replySubject cfg \<circ> snd) (messageTasks x @ [(sid, ?m)]))"
      using inv free(1) by (simp add: answersInv_def image_comp)
    ultimately show ?thesis unfolding answersInv_def by auto
  next
    case (message_moves i)
    with moveMessage_inv [OF acc inv] show ?thesis by simp
  next
    case (request_arrives req)
    have new: "requestTasks y = requestTasks x @ [q] \<Longrightarrow> requestInv cfg (loadTasks y) q \<Longrightarrow> mem y = mem x \<Longrightarrow>
        messageTasks y = messageTasks x \<Longrightarrow> answersInv cfg y" for q
      using inv messageInv_grow [OF _ grow, of cfg "mem x" _ "mem x"] requestInv_grow [OF _ grow, of cfg]
      by (fastforce simp: answersInv_def)
    show ?thesis
      unfolding request_arrives(2)
      by (rule new [unfolded request_arrives(2), where q = "last (requestTasks (acceptRequest cfg req x))"])
        (auto simp: acceptRequest_def Let_def requestInv_def nth_append split: prod.split sum.split)
  next
    case (request_moves i)
    have "\<forall>q \<in> set (requestTasks x). requestInv cfg (loadTasks x) q" using inv by (simp add: answersInv_def)
    note m = moveRequest_inv [OF this request_moves(3,4)]
    obtain c qs where y: "y = x\<lparr>mem := mem x\<lparr>console := c\<rparr>, requestTasks := qs\<rparr>"
      using moveRequest_state [of cfg i x] request_moves(2) by blast
    have "messageInv cfg (loadTasks x) (mem x\<lparr>console := c\<rparr>) p" if "(j, p) \<in> set (messageTasks x)" for j p
      by (rule messageInv_grow [of _ "loadTasks x" "mem x"]) (use inv that in \<open>auto simp: answersInv_def\<close>)
    with m inv y request_moves(2) show ?thesis by (auto simp: answersInv_def)
  next
    case (load_moves i)
    with answersInv_keep [OF inv grow] moveLoad_published [of pf i x] show ?thesis
      by (simp add: moveLoad_def split: prod.splits)
  qed (use answersInv_keep [OF inv grow] in simp)
qed

interpretation answers: inductive_invariant "loopStart pf cfg fs" "uniqueStep pf cfg quiet"
    "\<lambda>x. installed pf \<and> commandsTidy pf \<and> fsInv fs \<and> acceptsAll pf \<longrightarrow> loopInv pf cfg x \<and> answersInv cfg x"
  for pf cfg fs quiet
proof unfold_locales
  show "installed pf \<and> commandsTidy pf \<and> fsInv fs \<and> acceptsAll pf \<longrightarrow> loopInv pf cfg x \<and> answersInv cfg x"
    if "loopStart pf cfg fs x" for x
    using that loopInv_start(1) by (auto simp: answersInv_def loopStart_def)
qed (blast intro: loopInv_step answersInv_step dest: uniqueStep_def [THEN iffD1])

end
