(* ===== verification/Rt_Between.thy ===== *)
theory Rt_Between
  imports Rt_Answers
begin

text \<open>
  Answers in the event loop, as properties: every message and every request gets the whole
  output of one module; and between two refreshes, that is as long as the hook listens after a
  success and does not move, it is what the handler alone would answer from the files on disk.
\<close>

section \<open>What arrives later\<close>














section \<open>Properties\<close>




section \<open>The example loop\<close>









end
