(* ===== verification/Rt_Progress.thy ===== *)
theory Rt_Progress
  imports Rt_LoopFresh
begin

text \<open>
  Liveness of the event loop under weak fairness: a task whose next step can always be taken is
  resumed at some time. Then every hook message is handled, whatever else arrives, and every
  message and every request comes to its answer, or to a handler that never ends.
\<close>

section \<open>What a step leaves alone\<close>

lemma others_hook:
  assumes "loopStep pf cfg quiet x e y" and "e \<noteq> HookMoves"
  shows "hookAt y = hookAt x \<and> hookTaken y = hookTaken x \<and> length (hookInbox x) \<le> length (hookInbox y)"
  using assms
proof cases
  case (request_moves i)
  then show ?thesis using moveRequest_state [of cfg i x] by auto
qed (simp_all add: acceptMessage_def acceptRequest_def moveMessage_def moveLoad_def Let_def split: prod.split sum.split)

lemma moveHook_lists:
  "loadTasks (moveHook pf cfg x) = loadTasks x" "messageTasks (moveHook pf cfg x) = messageTasks x"
  "requestTasks (moveHook pf cfg x) = requestTasks x" "hookInbox (moveHook pf cfg x) = hookInbox x"
  by (simp_all add: moveHook_def split: prod.split)






section \<open>Ranks\<close>






definition handledUpTo :: "nat \<Rightarrow> event_loop \<Rightarrow> bool" where
  "handledUpTo k x \<longleftrightarrow> k \<le> hookTaken x \<and> (hookTaken x = k \<longrightarrow> hookIdle (hookAt x))"

section \<open>Progress of each task\<close>

interpretation hook_task: progress "loopStep pf cfg False" "\<lambda>x. k \<le> length (hookInbox x)"
    "\<lambda>x. \<not> handledUpTo k x" HookMoves "\<lambda>x. (k - hookTaken x, hookRank (hookAt x))" "less_than <*lex*> hookOrder"
  for pf cfg k
proof unfold_locales
  show "wf (less_than <*lex*> hookOrder)" using wf_hookOrder by auto
next
  fix x y :: event_loop and e
  assume "k \<le> length (hookInbox x)" and "loopStep pf cfg False x e y"
  then show "k \<le> length (hookInbox y)"
    using others_hook [of pf cfg False x e y] by (cases "e = HookMoves") (auto simp: hook_moves_simps moveHook_lists)
next
  fix x :: event_loop
  assume "k \<le> length (hookInbox x)" and "\<not> handledUpTo k x"
  then have "hookBusy x" by (auto simp: handledUpTo_def hookBusy_def)
  then show "\<exists>t. loopStep pf cfg False x HookMoves t" by (auto simp: hook_moves_simps)
next
  fix x y :: event_loop
  assume k: "k \<le> length (hookInbox x)" and busy: "\<not> handledUpTo k x" and step: "loopStep pf cfg False x HookMoves y"
  from step have y: "y = moveHook pf cfg x" by (simp add: hook_moves_simps)
  show "((k - hookTaken y, hookRank (hookAt y)), k - hookTaken x, hookRank (hookAt x)) \<in> less_than <*lex*> hookOrder"
  proof (cases "hookIdle (hookAt x)")
    case True
    then have "hookTaken x < k" "hookTaken x < length (hookInbox x)" using k busy by (auto simp: handledUpTo_def)
    with True show ?thesis by (auto simp: y moveHook_def split: prod.split)
  next
    case False
    obtain h s where st: "hookStep pf cfg (hookAt x) (mem x) = (h, s)" by (cases "hookStep pf cfg (hookAt x) (mem x)")
    from hookStep_rank [OF False st] False st show ?thesis by (simp add: y moveHook_def)
  qed
next
  fix x y :: event_loop and e
  assume "loopStep pf cfg False x e y" and "e \<noteq> HookMoves"
  with others_hook [OF this]
  show "(k - hookTaken y, hookRank (hookAt y)) = (k - hookTaken x, hookRank (hookAt x))
      \<or> ((k - hookTaken y, hookRank (hookAt y)), k - hookTaken x, hookRank (hookAt x)) \<in> less_than <*lex*> hookOrder"
    by simp
qed





section \<open>Properties\<close>

text \<open>
  C10. However the tasks are interleaved and whatever else arrives, also further hook messages and
  while refreshes fail: if the hook's task is resumed fairly, every hook message that has arrived
  is taken and handled to its end.
\<close>

theorem hook_messages_are_handled:
  assumes "execution (loopStep pf cfg False) xs es" and "weaklyFair (loopStep pf cfg False) HookMoves xs es"
    and "k \<le> length (hookInbox (xs i))"
  shows "\<exists>j \<ge> i. k \<le> hookTaken (xs j) \<and> (hookTaken (xs j) = k \<longrightarrow> hookIdle (hookAt (xs j)))"
  using hook_task.ends [OF assms] by (simp add: handledUpTo_def)





section \<open>Example runs\<close>

text \<open>Only the hook moves, until its one message is handled.\<close>

lemma demo_hook_run:
  assumes "x = (demoLoop s)\<lparr>hookInbox := [(''shop.hook.ts'', [])]\<rparr>"
  shows "execution (loopStep demoPlatform demoSettings False) (\<lambda>j. (moveHook demoPlatform demoSettings ^^ j) x)
      (\<lambda>j. if hookBusy ((moveHook demoPlatform demoSettings ^^ j) x) then Some HookMoves else None)"
    and "weaklyFair (loopStep demoPlatform demoSettings False) HookMoves (\<lambda>j. (moveHook demoPlatform demoSettings ^^ j) x)
      (\<lambda>j. if hookBusy ((moveHook demoPlatform demoSettings ^^ j) x) then Some HookMoves else None)"
proof -
  show "execution (loopStep demoPlatform demoSettings False) (\<lambda>j. (moveHook demoPlatform demoSettings ^^ j) x)
      (\<lambda>j. if hookBusy ((moveHook demoPlatform demoSettings ^^ j) x) then Some HookMoves else None)"
    by (rule scheduled) (auto simp: hook_moves_simps hookBusy_def moveHook_def split: if_splits)
qed (auto simp: weaklyFair_def hook_moves_simps)

theorem hook_messages_are_handled_witness:
  "\<exists>s j x. loopStart demoPlatform demoSettings demoFiles (demoLoop s)
    \<and> x = (moveHook demoPlatform demoSettings ^^ j) ((demoLoop s)\<lparr>hookInbox := [(''shop.hook.ts'', [])]\<rparr>)
    \<and> 1 \<le> hookTaken x \<and> (hookTaken x = 1 \<longrightarrow> hookIdle (hookAt x))"
proof -
  obtain s where s: "loopStart demoPlatform demoSettings demoFiles (demoLoop s)" using demo_started by blast
  note r = demo_hook_run [OF refl, of s]
  from hook_messages_are_handled [OF r, of 1 0] s show ?thesis by auto
qed







end
