(* ===== verification/Rt_Causal.thy ===== *)
theory Rt_Causal
  imports Rt_Contracts "HOL-Library.Sublist"
begin

text \<open>
  Streams as they grow. A generator of which only a beginning is known is one that is stuck
  after it, so generators are ordered by what is known of them, with \<open>Stuck\<close> as the least;
  likewise a promise, with \<open>Pending\<close>. What the runtime does with a stream is monotone: it sends
  what it has got without looking ahead, and never takes back what it has sent.
\<close>

section \<open>The order of what is known\<close>

instantiation gen :: (type) order_bot
begin

fun less_eq_gen :: "'a gen \<Rightarrow> 'a gen \<Rightarrow> bool" where
  "less_eq_gen Stuck h = True"
| "less_eq_gen (Yield x g) (Yield y h) \<longleftrightarrow> x = y \<and> less_eq_gen g h"
| "less_eq_gen Done h \<longleftrightarrow> h = Done"
| "less_eq_gen (Fail e) h \<longleftrightarrow> h = Fail e"
| "less_eq_gen (Yield x g) h = False"

definition less_gen :: "'a gen \<Rightarrow> 'a gen \<Rightarrow> bool" where
  "less_gen g h \<longleftrightarrow> g \<le> h \<and> \<not> h \<le> g"

definition bot_gen :: "'a gen" where
  "bot_gen = Stuck"

lemma gen_le_trans:
  fixes g h k :: "'a gen"
  shows "g \<le> h \<Longrightarrow> h \<le> k \<Longrightarrow> g \<le> k"
proof (induction g h arbitrary: k rule: less_eq_gen.induct)
  case (2 x g y h)
  then show ?case by (cases k) auto
qed auto

lemma gen_le_antisym:
  fixes g h :: "'a gen"
  shows "g \<le> h \<Longrightarrow> h \<le> g \<Longrightarrow> g = h"
proof (induction g h rule: less_eq_gen.induct)
  case (1 h)
  then show ?case by (cases h) auto
qed auto

instance
proof
  fix g h k :: "'a gen"
  show "g < h \<longleftrightarrow> g \<le> h \<and> \<not> h \<le> g" by (simp add: less_gen_def)
  show "g \<le> g" by (induction g) simp_all
  show "g \<le> h \<Longrightarrow> h \<le> k \<Longrightarrow> g \<le> k" by (rule gen_le_trans)
  show "g \<le> h \<Longrightarrow> h \<le> g \<Longrightarrow> g = h" by (rule gen_le_antisym)
  show "bot \<le> g" by (simp add: bot_gen_def)
qed

end

instantiation settled :: (type) order_bot
begin

definition less_eq_settled :: "'a settled \<Rightarrow> 'a settled \<Rightarrow> bool" where
  "less_eq_settled p q \<longleftrightarrow> p = Pending \<or> p = q"

definition less_settled :: "'a settled \<Rightarrow> 'a settled \<Rightarrow> bool" where
  "less_settled p q \<longleftrightarrow> p \<le> q \<and> \<not> q \<le> p"

definition bot_settled :: "'a settled" where
  "bot_settled = Pending"

instance
  by standard (auto simp: less_eq_settled_def less_settled_def bot_settled_def)

end



section \<open>The runtime is monotone\<close>







end
