(* ===== verification/Rt_JsonType.thy ===== *)
theory Rt_JsonType
  imports Rt_Invoke "HOL-Library.Multiset"
begin

text \<open>
  The type of what \<^verbatim>\<open>JSON.parse\<close> gives, and with it a request's \<^verbatim>\<open>json()\<close>: the values of the
  JSON grammar, never \<^verbatim>\<open>undefined\<close>, a function, a \<^verbatim>\<open>BigInt\<close>, a byte array or an object with an
  iterator. The parser's machine keeps its stack typed.
\<close>

section \<open>The type\<close>

fun jsonTyped :: "jsval \<Rightarrow> bool"
  and elemsTyped :: "jsval list \<Rightarrow> bool"
  and propsTyped :: "(string \<times> jsval) list \<Rightarrow> bool"
where
  "jsonTyped JNull = True"
| "jsonTyped (JBool b) = True"
| "jsonTyped (JNum n) = True"
| "jsonTyped (JString s) = True"
| "jsonTyped (JArray vs) = elemsTyped vs"
| "jsonTyped (JObject ps it ait) =
     (it = None \<and> ait = None \<and> distinct (map fst ps) \<and> orderProps ps = ps \<and> propsTyped ps)"
| "jsonTyped _ = False"
| "elemsTyped [] = True"
| "elemsTyped (v # vs) = (jsonTyped v \<and> elemsTyped vs)"
| "propsTyped [] = True"
| "propsTyped ((k, v) # ps) = (jsonTyped v \<and> propsTyped ps)"

lemma elemsTyped_iff: "elemsTyped vs \<longleftrightarrow> (\<forall>v \<in> set vs. jsonTyped v)"
  by (induction vs) auto

lemma propsTyped_iff: "propsTyped ps \<longleftrightarrow> (\<forall>(k, v) \<in> set ps. jsonTyped v)"
  by (induction ps) auto

section \<open>The machine keeps its stack typed\<close>

fun frameTyped :: "frame \<Rightarrow> bool" where
  "frameTyped (InArray vs) = elemsTyped vs"
| "frameTyped (InObject ps) = (mapInv ps \<and> propsTyped ps)"
| "frameTyped (InProperty ps k) = (mapInv ps \<and> propsTyped ps)"

fun expectsTyped :: "expects \<Rightarrow> bool" where
  "expectsTyped (Complete v) = jsonTyped v"
| "expectsTyped _ = True"

definition machineTyped :: "expects \<times> frame list \<Rightarrow> bool" where
  "machineTyped x \<longleftrightarrow> expectsTyped (fst x) \<and> list_all frameTyped (snd x)"

lemma machineTyped_pair [simp]: "machineTyped (e, st) \<longleftrightarrow> expectsTyped e \<and> list_all frameTyped st"
  by (simp add: machineTyped_def)

lemma propsTyped_set: "propsTyped ps \<Longrightarrow> jsonTyped v \<Longrightarrow> propsTyped (mapSet k v ps)"
  by (induction k v ps rule: mapSet.induct) auto

lemma orderProps_set: "set (orderProps ps) = set ps"
  by (auto simp: orderProps_def)

lemma orderProps_keys: "mapInv ps \<Longrightarrow> distinct (map fst (orderProps ps))"
proof -
  let ?is = "filter (\<lambda>(k, v). arrayIndex k \<noteq> None) ps" and ?ns = "filter (\<lambda>(k, v). arrayIndex k = None) ps"
  assume "mapInv ps"
  then have d: "distinct (map fst ps)" by (simp add: mapInv_def mapKeys_def)
  let ?s = "sort_key (\<lambda>(k, v). the (arrayIndex k)) ?is"
  have "mset (map fst ?s) = mset (map fst ?is)" by (simp only: mset_map mset_sort)
  then have "distinct (map fst ?s)" using distinct_map_filter [OF d] by (metis mset_eq_imp_distinct_iff)
  moreover have "distinct (map fst ?ns)" by (rule distinct_map_filter [OF d])
  moreover have "set (map fst ?s) \<inter> set (map fst ?ns) = {}" by auto
  ultimately show ?thesis unfolding orderProps_def map_append distinct_append by blast
qed

lemma orderProps_idem: "orderProps (orderProps ps) = orderProps ps"
proof -
  let ?i = "\<lambda>(k, v). arrayIndex k \<noteq> None" and ?n = "\<lambda>(k, v). arrayIndex k = None"
    and ?f = "\<lambda>(k, v). the (arrayIndex k)"
  let ?s = "sort_key ?f (filter ?i ps)"
  have "filter ?i ?s = ?s" "filter ?n ?s = []" by (auto simp: filter_id_conv filter_empty_conv)
  moreover have "filter ?i (filter ?n ps) = []" "filter ?n (filter ?n ps) = filter ?n ps"
    by (auto simp: filter_empty_conv)
  ultimately show ?thesis by (simp add: orderProps_def sort_key_id_if_sorted)
qed

lemma deliver_typed:
  assumes "deliver v st = Some y" and "jsonTyped v" and "list_all frameTyped st"
  shows "machineTyped y"
  using assms
  by (auto simp: deliver_def machineTyped_def elemsTyped_iff intro: propsTyped_set mapInv_set
      split: list.splits frame.splits)

lemma closeFrame_typed:
  assumes "closeFrame tok st = Some y" and "list_all frameTyped st"
  shows "machineTyped y"
proof -
  have "jsonTyped (JObject (orderProps ps) None None)" if "mapInv ps" "propsTyped ps" for ps
    using that orderProps_keys [OF that(1)] by (simp add: orderProps_idem propsTyped_iff orderProps_set)
  with assms show ?thesis
    by (auto simp: closeFrame_def split: token.splits list.splits frame.splits intro: deliver_typed)
qed

lemma scalar_typed: "scalar nearest tok = Some v \<Longrightarrow> jsonTyped v"
  by (cases tok) (auto simp: scalar_def)

lemma parseStep_typed:
  assumes "parseStep nearest tok x = Some y" and "machineTyped x"
  shows "machineTyped y"
  using assms
proof (cases "(nearest, tok, x)" rule: parseStep.cases)
  case (1 near tok' fresh st)
  with assms(2) have st: "list_all frameTyped st" by simp
  have "machineTyped y" if "scalar near tok' = Some v" "deliver v st = Some y" for v
    by (rule deliver_typed [OF that(2) scalar_typed [OF that(1)] st])
  with assms(1) 1 st show ?thesis
    by (cases tok) (auto simp: mapInv_def mapKeys_def split: if_splits option.splits intro: closeFrame_typed)
next
  case (2 near tok' fresh st)
  with assms show ?thesis
    by (auto split: token.splits list.splits frame.splits if_splits intro: closeFrame_typed)
next
  case (4 near tok' st)
  with assms show ?thesis
    by (auto split: list.splits frame.splits if_splits intro: closeFrame_typed)
qed (use assms in \<open>auto split: if_splits\<close>)

lemma parseTokens_typed:
  "parseTokens nearest toks x = Some y \<Longrightarrow> machineTyped x \<Longrightarrow> machineTyped y"
  by (induction nearest toks x rule: parseTokens.induct) (auto split: option.splits intro: parseStep_typed)

lemma jsonParse_typed:
  assumes "jsonParse nearest s = Some v"
  shows "jsonTyped v"
proof -
  obtain toks where "parseTokens nearest toks (Value False, []) = Some (Complete v, [])"
    using assms by (auto simp: jsonParse_def split: option.splits expects.splits list.splits)
  from parseTokens_typed [OF this] show ?thesis by (simp add: machineTyped_def)
qed

section \<open>A typed value is always sent\<close>

lemma typed_no_bigint:
  "jsonTyped v \<Longrightarrow> \<not> reachesBigInt v" "elemsTyped vs \<Longrightarrow> \<not> anyBigInt vs" "propsTyped ps \<Longrightarrow> \<not> anyPropBigInt ps"
  by (induction v and vs and ps rule: jsonTyped_elemsTyped_propsTyped.induct) auto

lemma yieldAll_typed: "elemsTyped vs \<Longrightarrow> \<exists>bs. yieldAll (genOfList vs) = genOfList bs \<and> length bs = length vs"
proof (induction vs)
  case (Cons v vs)
  then obtain bs where bs: "yieldAll (genOfList vs) = genOfList bs" "length bs = length vs" by auto
  have "\<not> reachesBigInt v" using Cons.prems typed_no_bigint(1) by simp
  then obtain b where "asBytes v = Inr b" using asBytes_fails [of v] by (cases "asBytes v") auto
  with bs show ?case by (intro exI [of _ "b # bs"]) simp
qed simp

text \<open>
  C16. What a request's \<^verbatim>\<open>json()\<close> gives has the type of JSON values: \<^verbatim>\<open>null\<close>, booleans, numbers,
  strings, and arrays and objects of such values, objects without iterators, with distinct names
  in the language's enumeration order. And a handler may return any such value: the runtime
  always encodes it, an array as one chunk per element, everything else as one chunk.
\<close>

theorem parsed_json_is_typed:
  assumes "argJson (parseJSON pf) arg = Inr v"
  shows "jsonTyped v
    \<and> (\<exists>bs. resultChunks v = genOfList bs \<and> length bs = (case v of JArray vs \<Rightarrow> length vs | _ \<Rightarrow> 1))"
proof
  have parsed: "jsonTyped v" if "parseJSON pf s = Inr v" for s
    using that by (auto simp: parseJSON_def intro: jsonParse_typed split: option.splits)
  have "jsonTyped (JObject [] None None)" by (simp add: orderProps_def)
  with assms show typed: "jsonTyped v"
    by (cases arg) (auto split: sum.splits if_splits intro: parsed)
  show "\<exists>bs. resultChunks v = genOfList bs \<and> length bs = (case v of JArray vs \<Rightarrow> length vs | _ \<Rightarrow> 1)"
  proof (cases "\<exists>vs. v = JArray vs")
    case True
    with typed yieldAll_typed show ?thesis by auto
  next
    case False
    obtain b where b: "asBytes v = Inr b"
      using asBytes_fails [of v] typed_no_bigint(1) [OF typed] by (cases "asBytes v") auto
    have "resultChunks v = Yield b Done"
      using typed False b by (cases v) (auto simp: resultChunks_def yieldOne_def isString_def)
    then show ?thesis using False by (intro exI [of _ "[b]"]) (auto split: jsval.split)
  qed
qed

lemma demo_parse: "jsonParse (\<lambda>x. x) ''[null,[true],{}]'' = Some (JArray [JNull, JArray [JBool True], JObject [] None None])"
  by code_simp

theorem parsed_json_is_typed_witness:
  "\<exists>v. argJson (parseJSON demoPlatform) (RequestLike (textEncode ''[null,[true],{}]'')) = Inr v
    \<and> jsonTyped v \<and> (\<exists>bs. resultChunks v = genOfList bs \<and> length bs = 3)"
proof -
  have "wellFormed ''[null,[true],{}]''" by code_simp
  then have "textDecode (textEncode ''[null,[true],{}]'') = ''[null,[true],{}]''" by (rule textDecode_encode) code_simp
  moreover have "textEncode ''[null,[true],{}]'' \<noteq> []" by (simp add: textEncode_def)
  ultimately have "argJson (parseJSON demoPlatform) (RequestLike (textEncode ''[null,[true],{}]''))
      = Inr (JArray [JNull, JArray [JBool True], JObject [] None None])"
    using demo_parse by (simp add: parseJSON_def demoPlatform_def)
  from parsed_json_is_typed [OF this] this show ?thesis by auto
qed

end
