(* ===== verification/Docs_Postcss.thy ===== *)
theory Docs_Postcss
  imports Rt_JsonText
begin

text \<open>
  \<^verbatim>\<open>docs/config/postcss.config.js\<close>: the options the documentation site's build gives to
  PurgeCSS, above all the extractor that reads the names of the elements in use from the
  statistics Hugo writes. The plugins themselves, the scan of the style sheets for further safe
  names (\<^verbatim>\<open>purgecss-whitelister\<close>) and the text of a syntax error are arguments.
  Beside it \<^verbatim>\<open>docs/config/babel.config.js\<close>, which is a literal.
\<close>

section \<open>Reading properties\<close>

definition notReadable :: "jsval \<Rightarrow> string \<Rightarrow> js_error" where
  "notReadable v k =
     JsError ''TypeError'' (''Cannot read properties of ''
       @ (if v = JNull then ''null'' else ''undefined'') @ '' (reading '' @ [CHR 0x27] @ k
       @ [CHR 0x27] @ '')'')"

text \<open>\<^verbatim>\<open>v.k\<close> for a name that no built-in prototype has.\<close>

definition member :: "jsval \<Rightarrow> string \<Rightarrow> js_error + jsval" where
  "member v k =
     (if v = JUndefined \<or> v = JNull then Inl (notReadable v k)
      else case v of
        JObject ps it ait \<Rightarrow> Inr (case map_of ps k of None \<Rightarrow> JUndefined | Some w \<Rightarrow> w)
      | _ \<Rightarrow> Inr JUndefined)"

text \<open>The string conversion of the values \<^verbatim>\<open>JSON.parse\<close> gives, and of \<^verbatim>\<open>undefined\<close>.\<close>

fun stringOf :: "jsval \<Rightarrow> string" and elemString :: "jsval \<Rightarrow> string" and elemStrings :: "jsval list \<Rightarrow> string list" where
  "stringOf JUndefined = ''undefined''"
| "stringOf JNull = ''null''"
| "stringOf (JBool b) = (if b then ''true'' else ''false'')"
| "stringOf (JNum x) = numberText x"
| "stringOf (JString s) = s"
| "stringOf (JArray vs) = join '','' (elemStrings vs)"
| "stringOf _ = ''[object Object]''"
| "elemString v = (if v = JUndefined \<or> v = JNull then [] else stringOf v)"
| "elemStrings [] = []"
| "elemStrings (v # vs) = elemString v # elemStrings vs"

section \<open>The extractor\<close>

text \<open>\<^verbatim>\<open>receiver.concat(..args)\<close>: arrays and strings have the method.\<close>

definition concatCall :: "jsval \<Rightarrow> jsval list \<Rightarrow> js_error + jsval" where
  "concatCall receiver args =
     (case receiver of
        JArray vs \<Rightarrow>
          Inr (JArray (vs @ concat (map (\<lambda>a. case a of JArray ws \<Rightarrow> ws | _ \<Rightarrow> [a]) args)))
      | JString s \<Rightarrow> Inr (JString (s @ concat (map stringOf args)))
      | _ \<Rightarrow>
          if receiver = JUndefined \<or> receiver = JNull then Inl (notReadable receiver ''concat'')
          else Inl (JsError ''TypeError'' ''els.tags.concat is not a function''))"

definition extractor :: "(string \<Rightarrow> js_error + jsval) \<Rightarrow> string \<Rightarrow> js_error + jsval" where
  "extractor parse stats =
     (case parse stats of
        Inl e \<Rightarrow> Inl e
      | Inr v \<Rightarrow>
          (case member v ''htmlElements'' of
             Inl e \<Rightarrow> Inl e
           | Inr els \<Rightarrow>
               (case member els ''tags'' of
                  Inl e \<Rightarrow> Inl e
                | Inr tags \<Rightarrow>
                    if tags = JUndefined \<or> tags = JNull then Inl (notReadable tags ''concat'')
                    else (case member els ''classes'' of
                       Inl e \<Rightarrow> Inl e
                     | Inr classes \<Rightarrow>
                         (case member els ''ids'' of
                            Inl e \<Rightarrow> Inl e
                          | Inr ids \<Rightarrow> concatCall tags [classes, ids])))))"

section \<open>The options\<close>

record purge_options =
  contentFiles :: "string list"
  extractors :: "((string \<Rightarrow> js_error + jsval) \<times> string list) list"  \<comment> \<open>with their file extensions\<close>
  dynamicAttributes :: "string list"
  safelist :: "string list"

definition scannedStyles :: "string list" where
  "scannedStyles =
     [''./assets/scss/**/*.scss'',
      ''./node_modules/@thulite/doks-core/assets/scss/components/_code.scss'',
      ''./node_modules/@thulite/doks-core/assets/scss/components/_expressive-code.scss'',
      ''./node_modules/@thulite/doks-core/assets/scss/common/_syntax.scss'']"

definition purgeOptions ::
    "(string \<Rightarrow> js_error + jsval) \<Rightarrow> (string list \<Rightarrow> string list) \<Rightarrow> purge_options" where
  "purgeOptions parse whitelister =
     \<lparr>contentFiles = [''./hugo_stats.json''],
      extractors = [(extractor parse, [''json''])],
      dynamicAttributes =
        [''aria-expanded'', ''data-bs-popper'', ''data-bs-target'', ''data-bs-theme'',
         ''data-dark-mode'', ''data-global-alert'', ''data-pane'', ''data-popper-placement'',
         ''data-sizes'', ''data-toggle-tab'', ''id'', ''size'', ''type''],
      safelist =
        [''active'', ''btn-clipboard'', ''clipboard'', ''disabled'', ''hidden'', ''modal-backdrop'',
         ''selected'', ''show'', ''img-fluid'', ''blur-up'', ''lazyload'', ''lazyloaded'',
         ''alert-link'', ''container-fw '', ''container-lg'', ''container-fluid'',
         ''offcanvas-backdrop'', ''figcaption'', ''dt'', ''dd'', ''showing'', ''hiding'',
         ''page-item'', ''page-link'', ''not-content''] @ whitelister scannedStyles\<rparr>"

text \<open>
  What the file exports: the plugins, made by the two packages from their options.
\<close>

definition postcssPlugins ::
    "'plugin \<Rightarrow> (purge_options \<Rightarrow> 'plugin) \<Rightarrow> (string \<Rightarrow> js_error + jsval) \<Rightarrow>
     (string list \<Rightarrow> string list) \<Rightarrow> 'plugin list" where
  "postcssPlugins autoprefixer purgeCSSPlugin parse whitelister =
     [autoprefixer, purgeCSSPlugin (purgeOptions parse whitelister)]"

text \<open>
  \<^verbatim>\<open>docs/config/babel.config.js\<close>: one preset with the browsers it compiles for, as queries that
  the preset interprets.
\<close>

record babel_preset =
  presetName :: string
  targetBrowsers :: "string list"

definition babelPresets :: "babel_preset list" where
  "babelPresets =
     [\<lparr>presetName = ''@babel/preset-env'',
       targetBrowsers = [''>=1%'', ''not ie 11'', ''not op_mini all'']\<rparr>]"

section \<open>Properties\<close>

definition namesArray :: "string list \<Rightarrow> jsval" where
  "namesArray ns = JArray (map JString ns)"

definition statsOf :: "string list \<Rightarrow> string list \<Rightarrow> string list \<Rightarrow> jsval" where
  "statsOf tags classes ids =
     JObject [(''htmlElements'', JObject [(''tags'', namesArray tags), (''classes'', namesArray classes),
       (''ids'', namesArray ids)] None None)] None None"

lemma names_plain: "\<forall>n \<in> set ns. wellFormed n \<Longrightarrow> plainJSON nearest (namesArray ns)"
  by (simp add: namesArray_def) (induction ns; simp)

lemma stats_plain:
  assumes "\<forall>n \<in> set (tags @ classes @ ids). wellFormed n"
  shows "plainJSON nearest (statsOf tags classes ids)"
proof -
  have "arrayIndex ''htmlElements'' = None" "arrayIndex ''tags'' = None" "arrayIndex ''classes'' = None"
    "arrayIndex ''ids'' = None" by (simp_all add: arrayIndex_def isDigit_def)
  moreover have "wellFormed ''htmlElements''" "wellFormed ''tags''" "wellFormed ''classes''" "wellFormed ''ids''"
    by (simp_all add: wellFormed_def)
  ultimately show ?thesis using names_plain assms by (simp add: statsOf_def orderProps_def)
qed

text \<open>
  C40. The extractor that PurgeCSS is given for JSON files gives, on the text of Hugo's statistics,
  the names of all elements in use: the tags, then the classes, then the ids.
\<close>

theorem extractor_reads_stats:
  assumes "\<forall>n \<in> set (tags @ classes @ ids). wellFormed n"
    and "\<And>s v. jsonParse nearest s = Some v \<Longrightarrow> parse s = Inr v"
  shows "\<exists>s read. jsonText (statsOf tags classes ids) = Inr (Some s)
    \<and> extractors (purgeOptions parse whitelister) = [(read, [''json''])]
    \<and> read s = Inr (namesArray (tags @ classes @ ids))"
proof -
  obtain s where s: "jsonText (statsOf tags classes ids) = Inr (Some s)"
    "jsonParse nearest s = Some (statsOf tags classes ids)"
    using jsonParse_text [OF stats_plain [OF assms(1)]] by blast
  from assms(2) [OF s(2)] have "extractor parse s = Inr (namesArray (tags @ classes @ ids))"
    by (simp add: extractor_def statsOf_def member_def namesArray_def concatCall_def)
  with s(1) show ?thesis by (intro exI [of _ s] exI [of _ "extractor parse"]) (simp add: purgeOptions_def)
qed

theorem extractor_reads_stats_witness:
  "\<exists>s read. jsonText (statsOf [''a'', ''p''] [''hidden''] []) = Inr (Some s)
    \<and> extractors (purgeOptions (\<lambda>s. case jsonParse id s of None \<Rightarrow> Inl (JsThrown s) | Some v \<Rightarrow> Inr v) (\<lambda>files. []))
        = [(read, [''json''])]
    \<and> read s = Inr (namesArray [''a'', ''p'', ''hidden''])"
  using extractor_reads_stats [of "[''a'', ''p'']" "[''hidden'']" "[]" id
      "\<lambda>s. case jsonParse id s of None \<Rightarrow> Inl (JsThrown s) | Some v \<Rightarrow> Inr v" "\<lambda>files. []"]
  by (simp add: wellFormed_def del: jsonText.simps)

text \<open>
  The safe list names the class \<^verbatim>\<open>container-fw\<close> with a space after it, a name no class can
  have, and does not name the class itself.
\<close>

theorem safelist_misses_container_fw:
  assumes "''container-fw'' \<notin> set (whitelister scannedStyles)"
  shows "''container-fw '' \<in> set (safelist (purgeOptions parse whitelister))
    \<and> ''container-fw'' \<notin> set (safelist (purgeOptions parse whitelister))"
  using assms by (simp add: purgeOptions_def)

theorem safelist_misses_container_fw_witness:
  "''container-fw'' \<notin> set (safelist (purgeOptions (\<lambda>s. Inl (JsThrown s)) (\<lambda>files. [])))"
  using safelist_misses_container_fw [of "\<lambda>files. []" "\<lambda>s. Inl (JsThrown s)"] by simp

end
