(* ===== verification/Spec2Isabelle.thy ===== *)
theory Spec2Isabelle
  imports Rt_Between Rt_Progress Rt_Causal Rt_JsonType Docs_Postcss
begin

text \<open>
  A verification library for the TypeScript runtime of LiteFunctions (\<^verbatim>\<open>runtimes/ts\<close>), the
  process that runs a project's TypeScript functions inside the cluster.

  The program. At boot (\<^verbatim>\<open>main.ts\<close>) the process reads its settings from the environment
  (\<^verbatim>\<open>pkg/conf.ts\<close>), connects to NATS and ensures the project's stream (\<^verbatim>\<open>pkg/state.ts\<close>),
  brings a git clone of the project up to date, mirrors the clone's function files into the
  directory modules are imported from (\<^verbatim>\<open>pkg/functions.ts\<close>), subscribes to one request
  subject per function and to the refresh hook (\<^verbatim>\<open>pkg/consumer.ts\<close>), and serves HTTP. A
  message on a request subject invokes the function and publishes its chunks on the result
  subject of that request; an HTTP request is answered with the first chunk; a hook message
  refreshes the code and reconciles the subscriptions.

  The theories, in the order of the imports.
  \<^item> \<open>Rt_Prelude\<close>: JavaScript errors, actions (explicit state, effects that survive a throw),
    the rules \<open>keeps\<close> for frames and invariants. \<open>Rt_Map\<close>: \<^verbatim>\<open>Map\<close> and \<^verbatim>\<open>Set\<close> in insertion
    order, with the contract \<open>keyed_table\<close>. \<open>Rt_Strings\<close>, \<open>Rt_Text\<close>, \<open>Rt_Path\<close>: the string,
    UTF-8, URL-encoding and path functions of the platform that the source calls.
    \<open>Rt_Reach\<close>: reachable states, with the contracts \<open>inductive_invariant\<close> and \<open>simulation\<close>;
    executions, weak fairness, and the contract \<open>progress\<close> of a task that comes to its end.
  \<^item> \<open>Rt_Conf\<close>: \<^verbatim>\<open>conf.ts\<close>. \<open>Rt_Files\<close>, \<open>Rt_Dir\<close>: the file table and its operations
    (\<^verbatim>\<open>mkdir\<close>, \<^verbatim>\<open>readdir\<close>, \<^verbatim>\<open>readFile\<close>, \<^verbatim>\<open>writeFile\<close>, \<^verbatim>\<open>rm\<close>, \<^verbatim>\<open>stat\<close>), and the contracts
    \<open>dir_store\<close> and \<open>dir_copy\<close> of a directory that is purged and refilled.
  \<^item> \<open>Rt_Value\<close>: JavaScript values as the runtime tells them apart, \<^verbatim>\<open>JSON.stringify\<close>,
    \<^verbatim>\<open>asBytes\<close>, requests. \<open>Rt_Json\<close>: \<^verbatim>\<open>JSON.parse\<close>, a lexer and a stack machine;
    \<open>Rt_JsonText\<close>: it reads back what \<^verbatim>\<open>JSON.stringify\<close> writes; \<open>Rt_JsonType\<close>: the type of
    what it gives. \<open>Rt_Platform\<close>: everything that is called and not part of the repository, as
    one record of functions, and an example.
  \<^item> \<open>Rt_Sync\<close>: the first half of \<^verbatim>\<open>functions.ts\<close> (clone, mirror, listing); \<open>Rt_Refresh\<close>
    its properties. \<open>Rt_Loader\<close>: the module cache, with the contract \<open>module_source\<close> that the
    cached loader honours. \<open>Rt_Invoke\<close>: \<^verbatim>\<open>invokeModule\<close>. \<open>Rt_Calls\<close>: the properties of both.
  \<^item> \<open>Rt_Consumer\<close>: \<^verbatim>\<open>consumer.ts\<close>, with the contract \<open>reconciler\<close> for its two loops;
    \<open>Rt_Service\<close>: its invariants, message handling and the hook. \<open>Rt_State\<close>: \<^verbatim>\<open>state.ts\<close>.
    \<open>Rt_Main\<close>: \<^verbatim>\<open>main.ts\<close>. \<open>Rt_Contracts\<close>: the properties of these parts. \<open>Rt_Causal\<close>: the
    order of streams by what is known of them; the runtime never looks ahead.
  \<^item> \<open>Rt_Process\<close>: the booted process as a step relation over messages, hooks and requests.
    \<open>Rt_Spec\<close>: an abstract machine that serves a table of functions, and the simulation.
  \<^item> \<open>Rt_Steps\<close>: a refresh and a load cut at every \<^verbatim>\<open>await\<close>, as machines whose uninterrupted
    runs are the functions above. \<open>Rt_Interleave\<close>: any number of loads interleaved with
    refreshes, and three invariants. \<open>Rt_Tasks\<close>: the properties of interleaved runs.
    \<open>Rt_Messages\<close>: messages of different functions handled at the same time, on top of it.
  \<^item> \<open>Rt_Hook\<close>: the hook's loop (refresh, listing, both loops of \<^verbatim>\<open>reconcileConsumers\<close>, its
    \<^verbatim>\<open>catch\<close>) cut at every \<^verbatim>\<open>await\<close>, equal to the handler when it is not interrupted.
    \<open>Rt_Loop\<close>: the event loop after the boot, one relation over all tasks: the hook's, one per
    message, per HTTP request and per load. \<open>Rt_LoopInv\<close>, \<open>Rt_LoopFresh\<close>: its invariants and
    what it serves. \<open>Rt_Answers\<close>, \<open>Rt_Between\<close>: what it answers. \<open>Rt_Progress\<close>: that it does.
  \<^item> \<open>Docs_Postcss\<close>: the PostCSS and Babel configuration of the documentation site
    (\<^verbatim>\<open>docs/config/postcss.config.js\<close>, \<^verbatim>\<open>babel.config.js\<close>), with the extractor for PurgeCSS.

  State. The records extend one another as the modules do: \<open>os\<close> (files, console, spawned
  commands), \<open>fn_state\<close> (\<^verbatim>\<open>modules\<close>, \<^verbatim>\<open>moduleVersion\<close>, the platform's import table),
  \<open>rt_state\<close> (\<^verbatim>\<open>CONSUMERS\<close>, live subscriptions, published messages), \<open>proc_state\<close> (listening
  port, exit code). Operations are polymorphic in what extends their state.

  What the lemmas show. The loader invariant says that every imported URL has a version no
  newer than the cache's, so that a refresh makes all URLs new; freshness says that the cache
  and the import table agree with the files, and is what makes the cached loader equivalent to
  \<open>loadUncached\<close>. The consumer invariant says that the table and the live subscriptions
  agree. The mirror lemmas describe the runtime directory after a refresh file by file. The
  process theorems compose them over all reachable states, and the refinement says what is left
  of them for a caller: a table of functions, replaced by the clone's at every refresh, and no
  promise between a failed refresh and the next success. Interleaving changes neither the disk a
  refresh leaves nor, as long as no load is in flight when the cache is cleared, what is served
  after it; and it mixes no two answers. The event loop puts all of this together: the hook may be
  interrupted anywhere, also in the middle of a reconciliation, and whenever it listens after a
  success the subscriptions are those of the functions on disk; until it moves again, messages
  and requests get what the handler alone would answer; and in fair runs every hook message,
  message and request comes to its end. Several properties state behaviour that a reader may
  not expect: the consumed body of a synchronous request, iterated byte arrays, names with
  \<^verbatim>\<open>../\<close>, dotted project names, a module that survives a refresh, a window without functions.

  Termination. Every definition is a total function. There is no fuel: the loops of the source
  run over finite lists, a refresh and the hook's loop in steps end by lexicographic ranks that
  no interruption can raise, a load takes at most five steps, and an invocation that does not end is a value
  (\<open>Stuck\<close>, \<open>Pending\<close>) of the generator the handler returns, since user code is a parameter.

  Conventions and bounds. Strings are lists of the bytes of their UTF-8 form; numbers are
  decimal digits with an exponent; the port and the module version are unbounded, where the
  code has doubles. A property that needs the platform to behave says so: \<open>installed\<close> (the
  module's directory is absolute), \<open>commandsTidy\<close> (git leaves a file tree behind in which every
  entry lies in a directory), \<open>acceptsAll\<close> (the connection accepts publications). The event loop
  delivers a message only to a consumer that has handled its earlier one, as \<^verbatim>\<open>for await\<close> does;
  where answers are told apart by their result subject, the subjects of the messages are
  distinct (\<open>uniqueStep\<close>: the ingestor draws its request ids at random); and where progress is claimed, a
  task that can always go on is resumed at some time (\<open>weaklyFair\<close>). How a decimal is
  rounded to a double (\<open>nearestDouble\<close>) and the text of a JSON syntax error (\<open>syntaxMessage\<close>) are
  arguments; an escaped lone surrogate, which has no UTF-8 form, is read as the replacement
  character.

  Not modelled. The \<^verbatim>\<open>toJSON\<close> methods, getters and cycles of user objects; \<^verbatim>\<open>return()\<close> of user
  iterators; what a handler does besides returning (it cannot change the runtime's state here);
  permissions, symbolic links and I/O errors of the file system; time stamps; what the server
  delivers and in which order (messages arrive for any consumer that is free); reads and writes
  of files are single steps. Outside \<^verbatim>\<open>runtimes/ts\<close>: the Go services
  (ingestor, operator, portal), the runtimes of other languages, templates, charts, images and
  the rest of the documentation site are other languages, generated, vendored or configuration.
\<close>

section \<open>The process\<close>

text \<open>
  However messages, requests and hooks follow one another after the boot: whenever the last
  refresh that ran was logged as successful, the runtime serves exactly the functions on disk,
  each through one subscription and with the module of the file on disk.
\<close>

theorem process_is_up_to_date:
  assumes "installed pf" and "commandsTidy pf" and "fsInv fs"
    and "reach (booted pf cfg fs) (processStep pf cfg) (s, True)"
  shows "loaderFresh pf s
    \<and> (\<forall>n. liveOn s (execSubject cfg n) = (if onDisk pf s n then 1 else 0))"
  using process.reach_inv [OF assms(4)] assms(1-3) by (simp add: processInv_def upToDate_def)

lemma demo_booted: "\<exists>t. booted demoPlatform demoSettings demoFiles (t, True)"
  using demo_main_ok by (simp add: booted_def)

theorem process_is_up_to_date_witness:
  "\<exists>s. reach (booted demoPlatform demoSettings demoFiles) (processStep demoPlatform demoSettings) (s, True)
    \<and> loaderFresh demoPlatform s"
proof -
  obtain b where "booted demoPlatform demoSettings demoFiles (b, True)" using demo_booted by blast
  then have b: "reach (booted demoPlatform demoSettings demoFiles) (processStep demoPlatform demoSettings) (b, True)"
    by (rule reach_init)
  have "processStep demoPlatform demoSettings (b, True)
      (HttpRequest demoRequest (fst (handleSyncRequest demoPlatform demoSettings demoRequest b)))
      (snd (handleSyncRequest demoPlatform demoSettings demoRequest b), True)"
    by (simp add: request_step_simps) (metis prod.collapse)
  with b have "reach (booted demoPlatform demoSettings demoFiles) (processStep demoPlatform demoSettings)
      (snd (handleSyncRequest demoPlatform demoSettings demoRequest b), True)" by (rule reach_step)
  with process_is_up_to_date [OF demo_installed demo_tidy demo_fsInv this] show ?thesis by blast
qed

text \<open>
  In every state the process reaches, also after failed refreshes: the file table is well
  formed, every imported URL carries a version no newer than the cache's, the consumer table and
  the live subscriptions agree, the hook has exactly one subscription and no function has two.
\<close>

theorem process_invariant:
  assumes "installed pf" and "commandsTidy pf" and "fsInv fs"
    and "reach (booted pf cfg fs) (processStep pf cfg) (s, ok)"
  shows "fsInv (files s) \<and> loaderInv s \<and> consumersInv cfg s
    \<and> liveOn s (hookSubject cfg) = 1 \<and> (\<forall>n. liveOn s (execSubject cfg n) \<le> 1)"
proof -
  have inv: "processInv pf cfg (s, ok)" using process.reach_inv [OF assms(4)] assms(1-3) by blast
  then have "consumersInv cfg s" by (simp add: processInv_def serviceInv_def)
  from liveOn_exec [OF this] inv show ?thesis by (simp add: processInv_def serviceInv_def)
qed

theorem process_invariant_witness:
  "\<exists>s. reach (booted demoPlatform demoSettings demoFiles) (processStep demoPlatform demoSettings) (s, True)
    \<and> liveOn s (hookSubject demoSettings) = 1"
proof -
  obtain b where "booted demoPlatform demoSettings demoFiles (b, True)" using demo_booted by blast
  then have b: "reach (booted demoPlatform demoSettings demoFiles) (processStep demoPlatform demoSettings) (b, True)"
    by (rule reach_init)
  with process_invariant [OF demo_installed demo_tidy demo_fsInv this] show ?thesis by blast
qed



end
